theory Spec2Isabelle
  imports Complex_Main "HOL-Library.Monad_Syntax"
begin

section \<open>Device memory, C integers and kernel launches\<close>

text \<open>
  The build-wide floating-point type \<open>real\<close> of the program is modelled by the
  mathematical reals: every statement below is about exact arithmetic, round-off is
  not modelled.

  A device array is a list. A read or a write outside the array is undefined behaviour
  in the program; in the model it is the value \<open>None\<close>, and so is a signed overflow of
  a C \<open>int\<close>. A result \<open>Some s\<close> therefore says that the kernel ran without
  leaving its arrays and returned the memory \<open>s\<close>.
\<close>

definition INT_MAX :: int where
  "INT_MAX = 2147483647"

definition c_int :: "int \<Rightarrow> int option" where
  "c_int v = (if - INT_MAX - 1 \<le> v \<and> v \<le> INT_MAX then Some v else None)"

definition rd :: "'a list \<Rightarrow> int \<Rightarrow> 'a option" where
  "rd xs i = (if 0 \<le> i \<and> i < int (length xs) then Some (xs ! nat i) else None)"

definition wr :: "'a list \<Rightarrow> int \<Rightarrow> 'a \<Rightarrow> 'a list option" where
  "wr xs i v = (if 0 \<le> i \<and> i < int (length xs) then Some (xs[nat i := v]) else None)"

text \<open>
  \<^verbatim>\<open>for (int m = m0; cond(m); ++m) body\<close> with the loop-carried locals \<open>acc\<close>. The
  condition is evaluated before every iteration, as in C.
\<close>

partial_function (option) for_loop ::
  "(int \<Rightarrow> bool option) \<Rightarrow> (int \<Rightarrow> 'a \<Rightarrow> 'a option) \<Rightarrow> int \<Rightarrow> 'a \<Rightarrow> 'a option" where
  "for_loop cond body m acc =
     do {
       c \<leftarrow> cond m;
       if c then do {
         acc' \<leftarrow> body m acc;
         m' \<leftarrow> c_int (m + 1);
         for_loop cond body m' acc'
       } else Some acc
     }"

declare for_loop.simps [code]

text \<open>
  A launch \<^verbatim>\<open>kernel<<<gridDim, blockDim>>>(...)\<close> runs one thread for every pair of
  a block index below \<open>gridDim\<close> and a thread index below \<open>blockDim\<close>. The threads of
  the kernels below write disjoint slots and read nothing another thread writes, so
  the model runs them one after the other, in the order of their global index. The
  state \<open>'s\<close> holds the arrays the kernel writes; the arrays it only reads are
  parameters. Each \<open>Vector\<close> argument of a wrapper owns its two buffers: different
  arguments are different buffers.
\<close>

fun run_threads :: "(nat \<Rightarrow> 's \<Rightarrow> 's option) \<Rightarrow> nat list \<Rightarrow> 's \<Rightarrow> 's option" where
  "run_threads thr [] s = Some s"
| "run_threads thr (t # ts) s = do { s' \<leftarrow> thr t s; run_threads thr ts s' }"

definition launch :: "nat \<Rightarrow> nat \<Rightarrow> (nat \<Rightarrow> nat \<Rightarrow> nat \<Rightarrow> 's \<Rightarrow> 's option) \<Rightarrow> 's \<Rightarrow> 's option" where
  "launch gridDim blockDim kern s =
     run_threads (\<lambda>t. kern (t div blockDim) blockDim (t mod blockDim))
       [0 ..< gridDim * blockDim] s"

section \<open>Data model\<close>

text \<open>
  The two public members of class \<open>Vector\<close> (vector.h): the real and the imaginary
  channel.
\<close>

record Vector =
  real_part :: "real list"
  imag_part :: "real list"

text \<open>
  The members of class \<open>Hamiltonian\<close> that its constructors set. The member \<open>n\<close> of
  the source is the field \<open>n_atoms\<close> here. The macro \<open>BLOCK_SIZE\<close> of common.h is the
  first parameter of every wrapper below.
\<close>

record Hamiltonian =
  n_atoms :: int
  energy_max :: real
  grid_size :: int
  neighbor_number :: "int list"
  neighbor_list :: "int list"
  potential :: "real list"
  hopping_real :: "real list"
  hopping_imag :: "real list"
  xx :: "real list"

section \<open>Operator application\<close>

text \<open>Kernel \<open>gpu_apply_hamiltonian\<close> and its wrapper \<open>Hamiltonian::apply\<close>.\<close>

fun gpu_apply_hamiltonian ::
  "nat \<Rightarrow> nat \<Rightarrow> nat \<Rightarrow> int \<Rightarrow> real \<Rightarrow> int list \<Rightarrow> int list \<Rightarrow> real list \<Rightarrow> real list \<Rightarrow> real list
   \<Rightarrow> real list \<Rightarrow> real list \<Rightarrow> real list \<times> real list \<Rightarrow> (real list \<times> real list) option" where
  "gpu_apply_hamiltonian blockIdx blockDim threadIdx number_of_atoms e_max
     g_neighbor_number g_neighbor_list g_potential g_hopping_real g_hopping_imag
     g_state_in_real g_state_in_imag (g_state_out_real, g_state_out_imag) =
     do {
       n \<leftarrow> c_int (int (blockIdx * blockDim + threadIdx));
       if n < number_of_atoms then do {
         p \<leftarrow> rd g_potential n;
         s_real \<leftarrow> rd g_state_in_real n;
         s_imag \<leftarrow> rd g_state_in_imag n;
         (temp_real, temp_imag) \<leftarrow>
           for_loop (\<lambda>m. do { nn \<leftarrow> rd g_neighbor_number n; Some (m < nn) })
             (\<lambda>m (temp_real, temp_imag). do {
                index_1 \<leftarrow> c_int (m * number_of_atoms + n);
                index_2 \<leftarrow> rd g_neighbor_list index_1;
                a \<leftarrow> rd g_hopping_real index_1;
                b \<leftarrow> rd g_hopping_imag index_1;
                c \<leftarrow> rd g_state_in_real index_2;
                d \<leftarrow> rd g_state_in_imag index_2;
                Some (temp_real + (a * c - b * d), temp_imag + (a * d + b * c))
              }) 0 (p * s_real, p * s_imag);
         g_state_out_real \<leftarrow> wr g_state_out_real n (temp_real / e_max);
         g_state_out_imag \<leftarrow> wr g_state_out_imag n (temp_imag / e_max);
         Some (g_state_out_real, g_state_out_imag)
       } else Some (g_state_out_real, g_state_out_imag)
     }"

definition Hamiltonian_apply :: "nat \<Rightarrow> Hamiltonian \<Rightarrow> Vector \<Rightarrow> Vector \<Rightarrow> Vector option" where
  "Hamiltonian_apply BLOCK_SIZE H input output =
     do {
       (out_real, out_imag) \<leftarrow>
         launch (nat (grid_size H)) BLOCK_SIZE
           (\<lambda>blockIdx blockDim threadIdx.
              gpu_apply_hamiltonian blockIdx blockDim threadIdx (n_atoms H) (energy_max H)
                (neighbor_number H) (neighbor_list H) (potential H)
                (hopping_real H) (hopping_imag H) (real_part input) (imag_part input))
           (real_part output, imag_part output);
       Some \<lparr>real_part = out_real, imag_part = out_imag\<rparr>
     }"

text \<open>Kernel \<open>gpu_apply_commutator\<close> and its wrapper \<open>Hamiltonian::apply_commutator\<close>.\<close>

fun gpu_apply_commutator ::
  "nat \<Rightarrow> nat \<Rightarrow> nat \<Rightarrow> int \<Rightarrow> real \<Rightarrow> int list \<Rightarrow> int list \<Rightarrow> real list \<Rightarrow> real list \<Rightarrow> real list
   \<Rightarrow> real list \<Rightarrow> real list \<Rightarrow> real list \<times> real list \<Rightarrow> (real list \<times> real list) option" where
  "gpu_apply_commutator blockIdx blockDim threadIdx number_of_atoms e_max
     g_neighbor_number g_neighbor_list g_hopping_real g_hopping_imag g_xx
     g_state_in_real g_state_in_imag (g_state_out_real, g_state_out_imag) =
     do {
       n \<leftarrow> c_int (int (blockIdx * blockDim + threadIdx));
       if n < number_of_atoms then do {
         (temp_real, temp_imag) \<leftarrow>
           for_loop (\<lambda>m. do { nn \<leftarrow> rd g_neighbor_number n; Some (m < nn) })
             (\<lambda>m (temp_real, temp_imag). do {
                index_1 \<leftarrow> c_int (m * number_of_atoms + n);
                index_2 \<leftarrow> rd g_neighbor_list index_1;
                a \<leftarrow> rd g_hopping_real index_1;
                b \<leftarrow> rd g_hopping_imag index_1;
                c \<leftarrow> rd g_state_in_real index_2;
                d \<leftarrow> rd g_state_in_imag index_2;
                x \<leftarrow> rd g_xx index_1;
                Some (temp_real - (a * c - b * d) * x, temp_imag - (a * d + b * c) * x)
              }) 0 (0, 0);
         g_state_out_real \<leftarrow> wr g_state_out_real n (temp_real / e_max);
         g_state_out_imag \<leftarrow> wr g_state_out_imag n (temp_imag / e_max);
         Some (g_state_out_real, g_state_out_imag)
       } else Some (g_state_out_real, g_state_out_imag)
     }"

definition Hamiltonian_apply_commutator ::
  "nat \<Rightarrow> Hamiltonian \<Rightarrow> Vector \<Rightarrow> Vector \<Rightarrow> Vector option" where
  "Hamiltonian_apply_commutator BLOCK_SIZE H input output =
     do {
       (out_real, out_imag) \<leftarrow>
         launch (nat (grid_size H)) BLOCK_SIZE
           (\<lambda>blockIdx blockDim threadIdx.
              gpu_apply_commutator blockIdx blockDim threadIdx (n_atoms H) (energy_max H)
                (neighbor_number H) (neighbor_list H)
                (hopping_real H) (hopping_imag H) (xx H) (real_part input) (imag_part input))
           (real_part output, imag_part output);
       Some \<lparr>real_part = out_real, imag_part = out_imag\<rparr>
     }"

text \<open>Kernel \<open>gpu_apply_current\<close> and its wrapper \<open>Hamiltonian::apply_current\<close>.\<close>

fun gpu_apply_current ::
  "nat \<Rightarrow> nat \<Rightarrow> nat \<Rightarrow> int \<Rightarrow> int list \<Rightarrow> int list \<Rightarrow> real list \<Rightarrow> real list \<Rightarrow> real list
   \<Rightarrow> real list \<Rightarrow> real list \<Rightarrow> real list \<times> real list \<Rightarrow> (real list \<times> real list) option" where
  "gpu_apply_current blockIdx blockDim threadIdx number_of_atoms
     g_neighbor_number g_neighbor_list g_hopping_real g_hopping_imag g_xx
     g_state_in_real g_state_in_imag (g_state_out_real, g_state_out_imag) =
     do {
       n \<leftarrow> c_int (int (blockIdx * blockDim + threadIdx));
       if n < number_of_atoms then do {
         (temp_real, temp_imag) \<leftarrow>
           for_loop (\<lambda>m. do { nn \<leftarrow> rd g_neighbor_number n; Some (m < nn) })
             (\<lambda>m (temp_real, temp_imag). do {
                index_1 \<leftarrow> c_int (m * number_of_atoms + n);
                index_2 \<leftarrow> rd g_neighbor_list index_1;
                a \<leftarrow> rd g_hopping_real index_1;
                b \<leftarrow> rd g_hopping_imag index_1;
                c \<leftarrow> rd g_state_in_real index_2;
                d \<leftarrow> rd g_state_in_imag index_2;
                x \<leftarrow> rd g_xx index_1;
                x' \<leftarrow> rd g_xx index_1;
                Some (temp_real + (a * c - b * d) * x, temp_imag + (a * d + b * c) * x')
              }) 0 (0, 0);
         g_state_out_real \<leftarrow> wr g_state_out_real n temp_imag;
         g_state_out_imag \<leftarrow> wr g_state_out_imag n (- temp_real);
         Some (g_state_out_real, g_state_out_imag)
       } else Some (g_state_out_real, g_state_out_imag)
     }"

definition Hamiltonian_apply_current ::
  "nat \<Rightarrow> Hamiltonian \<Rightarrow> Vector \<Rightarrow> Vector \<Rightarrow> Vector option" where
  "Hamiltonian_apply_current BLOCK_SIZE H input output =
     do {
       (out_real, out_imag) \<leftarrow>
         launch (nat (grid_size H)) BLOCK_SIZE
           (\<lambda>blockIdx blockDim threadIdx.
              gpu_apply_current blockIdx blockDim threadIdx (n_atoms H)
                (neighbor_number H) (neighbor_list H)
                (hopping_real H) (hopping_imag H) (xx H) (real_part input) (imag_part input))
           (real_part output, imag_part output);
       Some \<lparr>real_part = out_real, imag_part = out_imag\<rparr>
     }"

section \<open>Chebyshev recursion steps\<close>

text \<open>Kernel \<open>gpu_chebyshev_01\<close> and its wrapper \<open>Hamiltonian::chebyshev_01\<close>.\<close>

fun gpu_chebyshev_01 ::
  "nat \<Rightarrow> nat \<Rightarrow> nat \<Rightarrow> int \<Rightarrow> real list \<Rightarrow> real list \<Rightarrow> real list \<Rightarrow> real list
   \<Rightarrow> real \<Rightarrow> real \<Rightarrow> int \<Rightarrow> real list \<times> real list \<Rightarrow> (real list \<times> real list) option" where
  "gpu_chebyshev_01 blockIdx blockDim threadIdx number_of_atoms
     g_state_0_real g_state_0_imag g_state_1_real g_state_1_imag b0 b1 direction
     (g_state_real, g_state_imag) =
     do {
       n \<leftarrow> c_int (int (blockIdx * blockDim + threadIdx));
       if n < number_of_atoms then do {
         let bessel_0 = b0;
         let bessel_1 = b1 * of_int direction;
         s0_real \<leftarrow> rd g_state_0_real n;
         s1_imag \<leftarrow> rd g_state_1_imag n;
         g_state_real \<leftarrow> wr g_state_real n (bessel_0 * s0_real + bessel_1 * s1_imag);
         s0_imag \<leftarrow> rd g_state_0_imag n;
         s1_real \<leftarrow> rd g_state_1_real n;
         g_state_imag \<leftarrow> wr g_state_imag n (bessel_0 * s0_imag - bessel_1 * s1_real);
         Some (g_state_real, g_state_imag)
       } else Some (g_state_real, g_state_imag)
     }"

definition Hamiltonian_chebyshev_01 ::
  "nat \<Rightarrow> Hamiltonian \<Rightarrow> Vector \<Rightarrow> Vector \<Rightarrow> Vector \<Rightarrow> real \<Rightarrow> real \<Rightarrow> int \<Rightarrow> Vector option" where
  "Hamiltonian_chebyshev_01 BLOCK_SIZE H state_0 state_1 state bessel_0 bessel_1 direction =
     do {
       (s_real, s_imag) \<leftarrow>
         launch (nat (grid_size H)) BLOCK_SIZE
           (\<lambda>blockIdx blockDim threadIdx.
              gpu_chebyshev_01 blockIdx blockDim threadIdx (n_atoms H)
                (real_part state_0) (imag_part state_0)
                (real_part state_1) (imag_part state_1) bessel_0 bessel_1 direction)
           (real_part state, imag_part state);
       Some \<lparr>real_part = s_real, imag_part = s_imag\<rparr>
     }"

text \<open>
  Kernel \<open>gpu_chebyshev_2\<close> and its wrapper \<open>Hamiltonian::chebyshev_2\<close>. The
  \<^verbatim>\<open>switch (label)\<close> has the cases 1 to 4 and no default. The wrapper returns the
  new \<open>state_2\<close> and the new accumulator \<open>state\<close>.
\<close>

fun gpu_chebyshev_2 ::
  "nat \<Rightarrow> nat \<Rightarrow> nat \<Rightarrow> int \<Rightarrow> real \<Rightarrow> int list \<Rightarrow> int list \<Rightarrow> real list \<Rightarrow> real list \<Rightarrow> real list
   \<Rightarrow> real list \<Rightarrow> real list \<Rightarrow> real list \<Rightarrow> real list \<Rightarrow> real \<Rightarrow> int
   \<Rightarrow> real list \<times> real list \<times> real list \<times> real list
   \<Rightarrow> (real list \<times> real list \<times> real list \<times> real list) option" where
  "gpu_chebyshev_2 blockIdx blockDim threadIdx number_of_atoms e_max
     g_neighbor_number g_neighbor_list g_potential g_hopping_real g_hopping_imag
     g_state_0_real g_state_0_imag g_state_1_real g_state_1_imag bessel_m label
     (g_state_2_real, g_state_2_imag, g_state_real, g_state_imag) =
     do {
       n \<leftarrow> c_int (int (blockIdx * blockDim + threadIdx));
       if n < number_of_atoms then do {
         p \<leftarrow> rd g_potential n;
         s_real \<leftarrow> rd g_state_1_real n;
         s_imag \<leftarrow> rd g_state_1_imag n;
         (temp_real, temp_imag) \<leftarrow>
           for_loop (\<lambda>m. do { nn \<leftarrow> rd g_neighbor_number n; Some (m < nn) })
             (\<lambda>m (temp_real, temp_imag). do {
                index_1 \<leftarrow> c_int (m * number_of_atoms + n);
                index_2 \<leftarrow> rd g_neighbor_list index_1;
                a \<leftarrow> rd g_hopping_real index_1;
                b \<leftarrow> rd g_hopping_imag index_1;
                c \<leftarrow> rd g_state_1_real index_2;
                d \<leftarrow> rd g_state_1_imag index_2;
                Some (temp_real + (a * c - b * d), temp_imag + (a * d + b * c))
              }) 0 (p * s_real, p * s_imag);
         let temp_real = temp_real / e_max;
         let temp_imag = temp_imag / e_max;
         s0_real \<leftarrow> rd g_state_0_real n;
         let temp_real = 2 * temp_real - s0_real;
         s0_imag \<leftarrow> rd g_state_0_imag n;
         let temp_imag = 2 * temp_imag - s0_imag;
         (g_state_real, g_state_imag) \<leftarrow>
           (if label = 1 then do {
              acc_real \<leftarrow> rd g_state_real n;
              g_state_real \<leftarrow> wr g_state_real n (acc_real + bessel_m * temp_real);
              acc_imag \<leftarrow> rd g_state_imag n;
              g_state_imag \<leftarrow> wr g_state_imag n (acc_imag + bessel_m * temp_imag);
              Some (g_state_real, g_state_imag)
            } else if label = 2 then do {
              acc_real \<leftarrow> rd g_state_real n;
              g_state_real \<leftarrow> wr g_state_real n (acc_real - bessel_m * temp_real);
              acc_imag \<leftarrow> rd g_state_imag n;
              g_state_imag \<leftarrow> wr g_state_imag n (acc_imag - bessel_m * temp_imag);
              Some (g_state_real, g_state_imag)
            } else if label = 3 then do {
              acc_real \<leftarrow> rd g_state_real n;
              g_state_real \<leftarrow> wr g_state_real n (acc_real + bessel_m * temp_imag);
              acc_imag \<leftarrow> rd g_state_imag n;
              g_state_imag \<leftarrow> wr g_state_imag n (acc_imag - bessel_m * temp_real);
              Some (g_state_real, g_state_imag)
            } else if label = 4 then do {
              acc_real \<leftarrow> rd g_state_real n;
              g_state_real \<leftarrow> wr g_state_real n (acc_real - bessel_m * temp_imag);
              acc_imag \<leftarrow> rd g_state_imag n;
              g_state_imag \<leftarrow> wr g_state_imag n (acc_imag + bessel_m * temp_real);
              Some (g_state_real, g_state_imag)
            } else Some (g_state_real, g_state_imag));
         g_state_2_real \<leftarrow> wr g_state_2_real n temp_real;
         g_state_2_imag \<leftarrow> wr g_state_2_imag n temp_imag;
         Some (g_state_2_real, g_state_2_imag, g_state_real, g_state_imag)
       } else Some (g_state_2_real, g_state_2_imag, g_state_real, g_state_imag)
     }"

definition Hamiltonian_chebyshev_2 ::
  "nat \<Rightarrow> Hamiltonian \<Rightarrow> Vector \<Rightarrow> Vector \<Rightarrow> Vector \<Rightarrow> Vector \<Rightarrow> real \<Rightarrow> int
   \<Rightarrow> (Vector \<times> Vector) option" where
  "Hamiltonian_chebyshev_2 BLOCK_SIZE H state_0 state_1 state_2 state bessel_m label =
     do {
       (s2_real, s2_imag, s_real, s_imag) \<leftarrow>
         launch (nat (grid_size H)) BLOCK_SIZE
           (\<lambda>blockIdx blockDim threadIdx.
              gpu_chebyshev_2 blockIdx blockDim threadIdx (n_atoms H) (energy_max H)
                (neighbor_number H) (neighbor_list H) (potential H)
                (hopping_real H) (hopping_imag H)
                (real_part state_0) (imag_part state_0)
                (real_part state_1) (imag_part state_1) bessel_m label)
           (real_part state_2, imag_part state_2, real_part state, imag_part state);
       Some (\<lparr>real_part = s2_real, imag_part = s2_imag\<rparr>,
             \<lparr>real_part = s_real, imag_part = s_imag\<rparr>)
     }"

text \<open>Kernel \<open>gpu_kernel_polynomial\<close> and its wrapper \<open>Hamiltonian::kernel_polynomial\<close>.\<close>

fun gpu_kernel_polynomial ::
  "nat \<Rightarrow> nat \<Rightarrow> nat \<Rightarrow> int \<Rightarrow> real \<Rightarrow> int list \<Rightarrow> int list \<Rightarrow> real list \<Rightarrow> real list \<Rightarrow> real list
   \<Rightarrow> real list \<Rightarrow> real list \<Rightarrow> real list \<Rightarrow> real list
   \<Rightarrow> real list \<times> real list \<Rightarrow> (real list \<times> real list) option" where
  "gpu_kernel_polynomial blockIdx blockDim threadIdx number_of_atoms e_max
     g_neighbor_number g_neighbor_list g_potential g_hopping_real g_hopping_imag
     g_state_0_real g_state_0_imag g_state_1_real g_state_1_imag
     (g_state_2_real, g_state_2_imag) =
     do {
       n \<leftarrow> c_int (int (blockIdx * blockDim + threadIdx));
       if n < number_of_atoms then do {
         p \<leftarrow> rd g_potential n;
         s_real \<leftarrow> rd g_state_1_real n;
         s_imag \<leftarrow> rd g_state_1_imag n;
         (temp_real, temp_imag) \<leftarrow>
           for_loop (\<lambda>m. do { nn \<leftarrow> rd g_neighbor_number n; Some (m < nn) })
             (\<lambda>m (temp_real, temp_imag). do {
                index_1 \<leftarrow> c_int (m * number_of_atoms + n);
                index_2 \<leftarrow> rd g_neighbor_list index_1;
                a \<leftarrow> rd g_hopping_real index_1;
                b \<leftarrow> rd g_hopping_imag index_1;
                c \<leftarrow> rd g_state_1_real index_2;
                d \<leftarrow> rd g_state_1_imag index_2;
                Some (temp_real + (a * c - b * d), temp_imag + (a * d + b * c))
              }) 0 (p * s_real, p * s_imag);
         let temp_real = temp_real / e_max;
         let temp_imag = temp_imag / e_max;
         s0_real \<leftarrow> rd g_state_0_real n;
         let temp_real = 2 * temp_real - s0_real;
         s0_imag \<leftarrow> rd g_state_0_imag n;
         let temp_imag = 2 * temp_imag - s0_imag;
         g_state_2_real \<leftarrow> wr g_state_2_real n temp_real;
         g_state_2_imag \<leftarrow> wr g_state_2_imag n temp_imag;
         Some (g_state_2_real, g_state_2_imag)
       } else Some (g_state_2_real, g_state_2_imag)
     }"

definition Hamiltonian_kernel_polynomial ::
  "nat \<Rightarrow> Hamiltonian \<Rightarrow> Vector \<Rightarrow> Vector \<Rightarrow> Vector \<Rightarrow> Vector option" where
  "Hamiltonian_kernel_polynomial BLOCK_SIZE H state_0 state_1 state_2 =
     do {
       (s2_real, s2_imag) \<leftarrow>
         launch (nat (grid_size H)) BLOCK_SIZE
           (\<lambda>blockIdx blockDim threadIdx.
              gpu_kernel_polynomial blockIdx blockDim threadIdx (n_atoms H) (energy_max H)
                (neighbor_number H) (neighbor_list H) (potential H)
                (hopping_real H) (hopping_imag H)
                (real_part state_0) (imag_part state_0)
                (real_part state_1) (imag_part state_1))
           (real_part state_2, imag_part state_2);
       Some \<lparr>real_part = s2_real, imag_part = s2_imag\<rparr>
     }"

text \<open>
  Kernel \<open>gpu_chebyshev_2x\<close> and its wrapper \<open>Hamiltonian::chebyshev_2x\<close>. The wrapper
  returns the new \<open>state_2\<close>, the new \<open>state_2x\<close> and the new accumulator \<open>state\<close>.
\<close>

fun gpu_chebyshev_2x ::
  "nat \<Rightarrow> nat \<Rightarrow> nat \<Rightarrow> int \<Rightarrow> real \<Rightarrow> int list \<Rightarrow> int list \<Rightarrow> real list \<Rightarrow> real list \<Rightarrow> real list
   \<Rightarrow> real list \<Rightarrow> real list \<Rightarrow> real list \<Rightarrow> real list \<Rightarrow> real list \<Rightarrow> real list \<Rightarrow> real list
   \<Rightarrow> real list \<Rightarrow> real list \<Rightarrow> real \<Rightarrow> int
   \<Rightarrow> real list \<times> real list \<times> real list \<times> real list \<times> real list \<times> real list
   \<Rightarrow> (real list \<times> real list \<times> real list \<times> real list \<times> real list \<times> real list) option" where
  "gpu_chebyshev_2x blockIdx blockDim threadIdx number_of_atoms e_max
     g_neighbor_number g_neighbor_list g_potential g_hopping_real g_hopping_imag g_xx
     g_state_0_real g_state_0_imag g_state_0x_real g_state_0x_imag
     g_state_1_real g_state_1_imag g_state_1x_real g_state_1x_imag g_bessel_m g_label
     (g_state_2_real, g_state_2_imag, g_state_2x_real, g_state_2x_imag,
      g_state_real, g_state_imag) =
     do {
       n \<leftarrow> c_int (int (blockIdx * blockDim + threadIdx));
       if n < number_of_atoms then do {
         p \<leftarrow> rd g_potential n;
         s_real \<leftarrow> rd g_state_1_real n;
         s_imag \<leftarrow> rd g_state_1_imag n;
         sx_real \<leftarrow> rd g_state_1x_real n;
         sx_imag \<leftarrow> rd g_state_1x_imag n;
         (temp_real, temp_imag, temp_x_real, temp_x_imag) \<leftarrow>
           for_loop (\<lambda>m. do { nn \<leftarrow> rd g_neighbor_number n; Some (m < nn) })
             (\<lambda>m (temp_real, temp_imag, temp_x_real, temp_x_imag). do {
                index_1 \<leftarrow> c_int (m * number_of_atoms + n);
                index_2 \<leftarrow> rd g_neighbor_list index_1;
                a \<leftarrow> rd g_hopping_real index_1;
                b \<leftarrow> rd g_hopping_imag index_1;
                c \<leftarrow> rd g_state_1_real index_2;
                d \<leftarrow> rd g_state_1_imag index_2;
                let temp_real = temp_real + (a * c - b * d);
                let temp_imag = temp_imag + (a * d + b * c);
                cx \<leftarrow> rd g_state_1x_real index_2;
                dx \<leftarrow> rd g_state_1x_imag index_2;
                let temp_x_real = temp_x_real + (a * cx - b * dx);
                let temp_x_imag = temp_x_imag + (a * dx + b * cx);
                x \<leftarrow> rd g_xx index_1;
                let temp_x_real = temp_x_real - (a * c - b * d) * x;
                let temp_x_imag = temp_x_imag - (a * d + b * c) * x;
                Some (temp_real, temp_imag, temp_x_real, temp_x_imag)
              }) 0 (p * s_real, p * s_imag, p * sx_real, p * sx_imag);
         let temp_real = temp_real / e_max;
         let temp_imag = temp_imag / e_max;
         s0_real \<leftarrow> rd g_state_0_real n;
         let temp_real = 2 * temp_real - s0_real;
         s0_imag \<leftarrow> rd g_state_0_imag n;
         let temp_imag = 2 * temp_imag - s0_imag;
         g_state_2_real \<leftarrow> wr g_state_2_real n temp_real;
         g_state_2_imag \<leftarrow> wr g_state_2_imag n temp_imag;
         let temp_x_real = temp_x_real / e_max;
         let temp_x_imag = temp_x_imag / e_max;
         s0x_real \<leftarrow> rd g_state_0x_real n;
         let temp_x_real = 2 * temp_x_real - s0x_real;
         s0x_imag \<leftarrow> rd g_state_0x_imag n;
         let temp_x_imag = 2 * temp_x_imag - s0x_imag;
         g_state_2x_real \<leftarrow> wr g_state_2x_real n temp_x_real;
         g_state_2x_imag \<leftarrow> wr g_state_2x_imag n temp_x_imag;
         let bessel_m = g_bessel_m;
         (g_state_real, g_state_imag) \<leftarrow>
           (if g_label = 1 then do {
              acc_real \<leftarrow> rd g_state_real n;
              g_state_real \<leftarrow> wr g_state_real n (acc_real + bessel_m * temp_x_real);
              acc_imag \<leftarrow> rd g_state_imag n;
              g_state_imag \<leftarrow> wr g_state_imag n (acc_imag + bessel_m * temp_x_imag);
              Some (g_state_real, g_state_imag)
            } else if g_label = 2 then do {
              acc_real \<leftarrow> rd g_state_real n;
              g_state_real \<leftarrow> wr g_state_real n (acc_real - bessel_m * temp_x_real);
              acc_imag \<leftarrow> rd g_state_imag n;
              g_state_imag \<leftarrow> wr g_state_imag n (acc_imag - bessel_m * temp_x_imag);
              Some (g_state_real, g_state_imag)
            } else if g_label = 3 then do {
              acc_real \<leftarrow> rd g_state_real n;
              g_state_real \<leftarrow> wr g_state_real n (acc_real + bessel_m * temp_x_imag);
              acc_imag \<leftarrow> rd g_state_imag n;
              g_state_imag \<leftarrow> wr g_state_imag n (acc_imag - bessel_m * temp_x_real);
              Some (g_state_real, g_state_imag)
            } else if g_label = 4 then do {
              acc_real \<leftarrow> rd g_state_real n;
              g_state_real \<leftarrow> wr g_state_real n (acc_real - bessel_m * temp_x_imag);
              acc_imag \<leftarrow> rd g_state_imag n;
              g_state_imag \<leftarrow> wr g_state_imag n (acc_imag + bessel_m * temp_x_real);
              Some (g_state_real, g_state_imag)
            } else Some (g_state_real, g_state_imag));
         Some (g_state_2_real, g_state_2_imag, g_state_2x_real, g_state_2x_imag,
               g_state_real, g_state_imag)
       } else Some (g_state_2_real, g_state_2_imag, g_state_2x_real, g_state_2x_imag,
                    g_state_real, g_state_imag)
     }"

definition Hamiltonian_chebyshev_2x ::
  "nat \<Rightarrow> Hamiltonian \<Rightarrow> Vector \<Rightarrow> Vector \<Rightarrow> Vector \<Rightarrow> Vector \<Rightarrow> Vector \<Rightarrow> Vector \<Rightarrow> Vector
   \<Rightarrow> real \<Rightarrow> int \<Rightarrow> (Vector \<times> Vector \<times> Vector) option" where
  "Hamiltonian_chebyshev_2x BLOCK_SIZE H state_0 state_0x state_1 state_1x state_2 state_2x
     state bessel_m label =
     do {
       (s2_real, s2_imag, s2x_real, s2x_imag, s_real, s_imag) \<leftarrow>
         launch (nat (grid_size H)) BLOCK_SIZE
           (\<lambda>blockIdx blockDim threadIdx.
              gpu_chebyshev_2x blockIdx blockDim threadIdx (n_atoms H) (energy_max H)
                (neighbor_number H) (neighbor_list H) (potential H)
                (hopping_real H) (hopping_imag H) (xx H)
                (real_part state_0) (imag_part state_0)
                (real_part state_0x) (imag_part state_0x)
                (real_part state_1) (imag_part state_1)
                (real_part state_1x) (imag_part state_1x) bessel_m label)
           (real_part state_2, imag_part state_2, real_part state_2x, imag_part state_2x,
            real_part state, imag_part state);
       Some (\<lparr>real_part = s2_real, imag_part = s2_imag\<rparr>,
             \<lparr>real_part = s2x_real, imag_part = s2x_imag\<rparr>,
             \<lparr>real_part = s_real, imag_part = s_imag\<rparr>)
     }"

section \<open>The operators as the specification states them\<close>

text \<open>
  The amplitude of a vector at a site as a complex number, and the edge tables read
  at \<open>slot_index * site_count + site_index\<close>.
\<close>

definition sites :: "Hamiltonian \<Rightarrow> nat" where
  "sites H = nat (n_atoms H)"

definition amp :: "Vector \<Rightarrow> nat \<Rightarrow> complex" where
  "amp v i = Complex (real_part v ! i) (imag_part v ! i)"

definition slot :: "Hamiltonian \<Rightarrow> nat \<Rightarrow> nat \<Rightarrow> nat" where
  "slot H k i = k * sites H + i"

definition degree :: "Hamiltonian \<Rightarrow> nat \<Rightarrow> nat" where
  "degree H i = nat (neighbor_number H ! i)"

definition neighbor :: "Hamiltonian \<Rightarrow> nat \<Rightarrow> nat \<Rightarrow> nat" where
  "neighbor H k i = nat (neighbor_list H ! slot H k i)"

definition hopping :: "Hamiltonian \<Rightarrow> nat \<Rightarrow> nat \<Rightarrow> complex" where
  "hopping H k i = Complex (hopping_real H ! slot H k i) (hopping_imag H ! slot H k i)"

definition edge_scalar :: "Hamiltonian \<Rightarrow> nat \<Rightarrow> nat \<Rightarrow> real" where
  "edge_scalar H k i = xx H ! slot H k i"

text \<open>\<open>(onsite_potential * input_site + \<Sum>_edges hopping * input_neighbor) / energy_max\<close>\<close>

definition apply_site :: "Hamiltonian \<Rightarrow> Vector \<Rightarrow> nat \<Rightarrow> complex" where
  "apply_site H x i =
     (of_real (potential H ! i) * amp x i
      + (\<Sum>k<degree H i. hopping H k i * amp x (neighbor H k i))) / of_real (energy_max H)"

text \<open>\<open>\<Sum>_edges hopping * input_neighbor * edge_scalar\<close>\<close>

definition edge_sum :: "Hamiltonian \<Rightarrow> Vector \<Rightarrow> nat \<Rightarrow> complex" where
  "edge_sum H x i =
     (\<Sum>k<degree H i. hopping H k i * amp x (neighbor H k i) * of_real (edge_scalar H k i))"

text \<open>\<open>-(\<Sum>_edges hopping * input_neighbor * edge_scalar) / energy_max\<close>\<close>

definition commutator_site :: "Hamiltonian \<Rightarrow> Vector \<Rightarrow> nat \<Rightarrow> complex" where
  "commutator_site H x i = - edge_sum H x i / of_real (energy_max H)"

text \<open>
  The 90-degree rotation: the real part of the result is the imaginary part of \<open>z\<close>, its
  imaginary part is the negated real part of \<open>z\<close>.
\<close>

definition rot90 :: "complex \<Rightarrow> complex" where
  "rot90 z = Complex (Im z) (- Re z)"

text \<open>One edge term of the sum in \<open>apply_site\<close>.\<close>

definition hop_term :: "Hamiltonian \<Rightarrow> Vector \<Rightarrow> nat \<Rightarrow> nat \<Rightarrow> complex" where
  "hop_term H x i k = hopping H k i * amp x (neighbor H k i)"

text \<open>
  The array \<open>xs\<close> after the threads of the first \<open>N\<close> sites have each stored \<open>v j\<close> in
  their slot \<open>j\<close>; slots from \<open>N\<close> on keep their contents.
\<close>

definition overwrite :: "nat \<Rightarrow> (nat \<Rightarrow> 'a) \<Rightarrow> 'a list \<Rightarrow> 'a list" where
  "overwrite N v xs = map (\<lambda>j. if j < N then v j else xs ! j) [0 ..< length xs]"

text \<open>One edge term of the sum in \<open>edge_sum\<close>.\<close>

definition edge_term :: "Hamiltonian \<Rightarrow> Vector \<Rightarrow> nat \<Rightarrow> nat \<Rightarrow> complex" where
  "edge_term H x i k = hopping H k i * amp x (neighbor H k i) * of_real (edge_scalar H k i)"

text \<open>
  The phase-routed accumulation: label 1 adds the term \<open>bessel_m * z\<close> to the
  accumulator, label 2 subtracts it, label 3 adds its 90-degree-rotated form, label 4
  subtracts the rotated form, any other label leaves the accumulator as it is.
\<close>

definition route :: "int \<Rightarrow> real \<Rightarrow> complex \<Rightarrow> complex \<Rightarrow> complex" where
  "route label bessel_m z acc =
     (if label = 1 then acc + of_real bessel_m * z
      else if label = 2 then acc - of_real bessel_m * z
      else if label = 3 then acc + rot90 (of_real bessel_m * z)
      else if label = 4 then acc - rot90 (of_real bessel_m * z)
      else acc)"

text \<open>
  The three-term recurrence \<open>2 * apply(state_1) - state_0\<close> at a site, and the shadow
  recurrence \<open>2 * (apply(state_1x) + apply_commutator(state_1)) - state_0x\<close>.
\<close>

definition recurrence_site :: "Hamiltonian \<Rightarrow> Vector \<Rightarrow> Vector \<Rightarrow> nat \<Rightarrow> complex" where
  "recurrence_site H state_0 state_1 i = 2 * apply_site H state_1 i - amp state_0 i"

definition shadow_site :: "Hamiltonian \<Rightarrow> Vector \<Rightarrow> Vector \<Rightarrow> Vector \<Rightarrow> nat \<Rightarrow> complex" where
  "shadow_site H state_0x state_1 state_1x i =
     2 * (apply_site H state_1x i + commutator_site H state_1 i) - amp state_0x i"

section \<open>Well-formed operators and vectors\<close>

text \<open>
  A lattice over \<open>n_atoms H > 0\<close> sites with at most \<open>max_neighbor\<close> neighbours per
  site: the per-site tables have one entry per site, the edge tables of the operator
  \<open>max_neighbor\<close> runs of one entry per site, every site has between 0 and \<open>max_neighbor\<close>
  neighbours and each of them is a site. Both constructors set
  \<open>grid_size = (number_of_atoms - 1) / BLOCK_SIZE + 1\<close>; the thread indices and the
  edge-table indices fit a C \<open>int\<close>.
\<close>

definition hamiltonian_ok :: "nat \<Rightarrow> int \<Rightarrow> Hamiltonian \<Rightarrow> bool" where
  "hamiltonian_ok BLOCK_SIZE max_neighbor H \<longleftrightarrow>
     0 < BLOCK_SIZE \<and> 0 < n_atoms H \<and>
     grid_size H = (n_atoms H - 1) div int BLOCK_SIZE + 1 \<and>
     grid_size H * int BLOCK_SIZE \<le> INT_MAX \<and>
     0 \<le> max_neighbor \<and> n_atoms H * max_neighbor \<le> INT_MAX \<and>
     length (neighbor_number H) = sites H \<and>
     length (potential H) = sites H \<and>
     length (neighbor_list H) = nat (n_atoms H * max_neighbor) \<and>
     length (hopping_real H) = nat (n_atoms H * max_neighbor) \<and>
     length (hopping_imag H) = nat (n_atoms H * max_neighbor) \<and>
     (\<forall>i\<in>{..<sites H}.
        0 \<le> neighbor_number H ! i \<and> neighbor_number H ! i \<le> max_neighbor \<and>
        (\<forall>k\<in>{..<degree H i}.
           0 \<le> neighbor_list H ! slot H k i \<and> neighbor_list H ! slot H k i < n_atoms H))"

text \<open>The table \<open>xx\<close> of the per-edge scalars is laid out like the other edge tables.\<close>

definition xx_ok :: "int \<Rightarrow> Hamiltonian \<Rightarrow> bool" where
  "xx_ok max_neighbor H \<longleftrightarrow> length (xx H) = nat (n_atoms H * max_neighbor)"

text \<open>A vector for the lattice: both channels hold at least one value per site.\<close>

definition vector_ok :: "Hamiltonian \<Rightarrow> Vector \<Rightarrow> bool" where
  "vector_ok H v \<longleftrightarrow> sites H \<le> length (real_part v) \<and> sites H \<le> length (imag_part v)"

section \<open>A two-site chain\<close>

text \<open>
  Two sites joined by one edge with the amplitude \<open>1 + 2i\<close> from site 0 to site 1 and
  its conjugate back, onsite potentials 3 and 5, edge scalars 1 and -1, spectral bound 2.
\<close>

definition chain2 :: Hamiltonian where
  "chain2 = \<lparr>n_atoms = 2, energy_max = 2, grid_size = 1,
     neighbor_number = [1, 1], neighbor_list = [1, 0], potential = [3, 5],
     hopping_real = [1, 1], hopping_imag = [2, -2], xx = [1, -1]\<rparr>"

definition vec_a :: Vector where
  "vec_a = \<lparr>real_part = [1, 2], imag_part = [0, 1]\<rparr>"

definition vec_b :: Vector where
  "vec_b = \<lparr>real_part = [0, 4], imag_part = [-1, 2]\<rparr>"

definition vec_0 :: Vector where
  "vec_0 = \<lparr>real_part = [0, 0], imag_part = [0, 0]\<rparr>"

section \<open>Inner products and Hermitian edge tables\<close>

text \<open>The inner product of two vectors over the first \<open>N\<close> sites, \<open>\<Sum>_i conj(a_i) * b_i\<close>.\<close>

definition inner_product :: "nat \<Rightarrow> Vector \<Rightarrow> Vector \<Rightarrow> complex" where
  "inner_product N a b = (\<Sum>i<N. cnj (amp a i) * amp b i)"

text \<open>
  A Hermitian edge table: site \<open>j\<close> occurs in the neighbour list of site \<open>i\<close> if and only
  if \<open>i\<close> occurs in that of \<open>j\<close>, and the amplitude of a slot of \<open>i\<close> that names \<open>j\<close> is the
  complex conjugate of the amplitude of a slot of \<open>j\<close> that names \<open>i\<close>.
\<close>

definition hermitian_edges :: "Hamiltonian \<Rightarrow> bool" where
  "hermitian_edges H \<longleftrightarrow>
     (\<forall>i\<in>{..<sites H}. \<forall>j\<in>{..<sites H}.
        (\<exists>k\<in>{..<degree H i}. neighbor H k i = j) = (\<exists>k\<in>{..<degree H j}. neighbor H k j = i)) \<and>
     (\<forall>i\<in>{..<sites H}. \<forall>k\<in>{..<degree H i}. \<forall>k'\<in>{..<degree H (neighbor H k i)}.
        neighbor H k' (neighbor H k i) = i \<longrightarrow>
        hopping H k i = cnj (hopping H k' (neighbor H k i)))"

text \<open>No neighbour list names a site twice: the edge from \<open>i\<close> to \<open>j\<close> is one slot.\<close>

definition simple_edges :: "Hamiltonian \<Rightarrow> bool" where
  "simple_edges H \<longleftrightarrow>
     (\<forall>i\<in>{..<sites H}. \<forall>k\<in>{..<degree H i}. \<forall>k'\<in>{..<degree H i}.
        neighbor H k i = neighbor H k' i \<longrightarrow> k = k')"

text \<open>The entry \<open>(i, j)\<close> of the unscaled hopping matrix: the amplitudes of the slots of \<open>i\<close> that name \<open>j\<close>.\<close>

definition matrix_entry :: "Hamiltonian \<Rightarrow> nat \<Rightarrow> nat \<Rightarrow> complex" where
  "matrix_entry H i j = (\<Sum>k\<in>{k \<in> {..<degree H i}. neighbor H k i = j}. hopping H k i)"

text \<open>
  A two-site lattice that names site 1 twice in the list of site 0 and site 0 once in
  the list of site 1, all amplitudes 1; and the two unit vectors on two sites.
\<close>

definition fork2 :: Hamiltonian where
  "fork2 = \<lparr>n_atoms = 2, energy_max = 1, grid_size = 1,
     neighbor_number = [2, 1], neighbor_list = [1, 0, 1, 0], potential = [0, 0],
     hopping_real = [1, 1, 1, 0], hopping_imag = [0, 0, 0, 0], xx = [0, 0, 0, 0]\<rparr>"

definition unit_0 :: Vector where
  "unit_0 = \<lparr>real_part = [1, 0], imag_part = [0, 0]\<rparr>"

definition unit_1 :: Vector where
  "unit_1 = \<lparr>real_part = [0, 1], imag_part = [0, 0]\<rparr>"

section \<open>Reads, loops and launches\<close>

lemma c_int_Some: "- INT_MAX - 1 \<le> v \<Longrightarrow> v \<le> INT_MAX \<Longrightarrow> c_int v = Some v"
  by (simp add: c_int_def)

lemma rd_Some: "0 \<le> j \<Longrightarrow> nat j < length xs \<Longrightarrow> rd xs j = Some (xs ! nat j)"
  by (simp add: rd_def) 

lemma rd_int: "i < length xs \<Longrightarrow> rd xs (int i) = Some (xs ! i)"
  by (simp add: rd_def)

lemma wr_int: "i < length xs \<Longrightarrow> wr xs (int i) v = Some (xs[i := v])"
  by (simp add: wr_def)

lemma for_loop_counted:
  assumes cond: "\<And>k. cond k = Some (k < d)"
    and body: "\<And>k a. 0 \<le> k \<Longrightarrow> k < d \<Longrightarrow> body k a = Some (step (nat k) a)"
    and d: "d \<le> INT_MAX"
  shows "0 \<le> m \<Longrightarrow> m \<le> d \<Longrightarrow>
    for_loop cond body m acc = Some (fold step [nat m ..< nat d] acc)"
proof (induction "nat (d - m)" arbitrary: m acc)
  case 0
  then have "m = d" by simp
  then show ?case
    by (subst for_loop.simps) (simp add: cond)
next
  case (Suc j)
  then have lt: "m < d" and m0: "0 \<le> m" by simp_all
  have next_m: "c_int (m + 1) = Some (m + 1)"
    using lt m0 d by (simp add: c_int_def INT_MAX_def)
  have IH: "for_loop cond body (m + 1) (step (nat m) acc)
      = Some (fold step [nat (m + 1) ..< nat d] (step (nat m) acc))"
    using Suc.hyps(1) [of "m + 1" "step (nat m) acc"] Suc.hyps(2) lt m0 by simp
  have upt: "[nat m ..< nat d] = nat m # [nat (m + 1) ..< nat d]"
    using lt m0 by (simp add: upt_conv_Cons nat_add_distrib)
  show ?case
    by (subst for_loop.simps) (simp add: cond lt body m0 next_m IH upt)
qed

lemma fold_add_pair:
  "fold (\<lambda>k (a, b). (a + f k, b + g k)) ks (a0, b0)
     = (a0 + sum_list (map f ks), b0 + sum_list (map g ks))"
  by (induction ks arbitrary: a0 b0) (simp_all add: add.assoc)

lemma run_threads_append:
  "run_threads thr (ts @ us) s = do { s' \<leftarrow> run_threads thr ts s; run_threads thr us s' }"
  by (induction ts arbitrary: s) (simp_all split: Option.bind_split)

lemma run_threads_invariant:
  assumes step: "\<And>t s. t < T \<Longrightarrow> I t s \<Longrightarrow> \<exists>s'. thr t s = Some s' \<and> I (Suc t) s'"
    and init: "I 0 s0"
  shows "\<exists>s'. run_threads thr [0 ..< T] s0 = Some s' \<and> I T s'"
  using step
proof (induction T)
  case 0
  show ?case using init by simp
next
  case (Suc T)
  then obtain s1 where s1: "run_threads thr [0 ..< T] s0 = Some s1" "I T s1"
    by (metis less_Suc_eq)
  from Suc.prems [of T s1] s1(2) obtain s2 where "thr T s1 = Some s2" "I (Suc T) s2"
    by auto
  then show ?case
    by (simp add: run_threads_append s1)
qed


lemma ok_sites_grid:
  assumes "hamiltonian_ok B mx H"
  shows "sites H \<le> nat (grid_size H) * B"
proof -
  from assms have B: "0 < int B" and N: "0 < n_atoms H"
    and g: "grid_size H = (n_atoms H - 1) div int B + 1"
    by (simp_all add: hamiltonian_ok_def)
  have "n_atoms H - 1 < ((n_atoms H - 1) div int B + 1) * int B"
    using B by (metis add.commute div_mult_mod_eq mult.commute distrib_left mult.right_neutral add_less_cancel_left pos_mod_bound)
  then have "n_atoms H \<le> grid_size H * int B"
    using g by simp
  moreover have "0 \<le> grid_size H"
    using g N B by (simp add: pos_imp_zdiv_nonneg_iff)
  ultimately show ?thesis
    by (simp add: sites_def nat_le_iff nat_mult_distrib)
qed

lemma slot_int:
  "0 < n_atoms H \<Longrightarrow> 0 \<le> k \<Longrightarrow> nat (k * n_atoms H + int i) = slot H (nat k) i"
  by (simp add: slot_def sites_def nat_add_distrib nat_mult_distrib)

lemma slot_bound:
  assumes "hamiltonian_ok B mx H" "i < sites H" "k < degree H i"
  shows "slot H k i < nat (n_atoms H * mx)" and "int (slot H k i) \<le> INT_MAX"
proof -
  from assms have N: "0 < n_atoms H" and mx: "n_atoms H * mx \<le> INT_MAX"
    and deg: "neighbor_number H ! i \<le> mx"
    by (auto simp: hamiltonian_ok_def)
  have "int k < mx"
    using assms(3) deg by (simp add: degree_def)
  then have "(int k + 1) * n_atoms H \<le> mx * n_atoms H"
    using N by (intro mult_right_mono) simp_all
  moreover have "int (slot H k i) < (int k + 1) * n_atoms H"
    using assms(2) N by (simp add: slot_def sites_def algebra_simps)
  ultimately have lt: "int (slot H k i) < n_atoms H * mx"
    by (simp add: mult.commute)
  then show "slot H k i < nat (n_atoms H * mx)" by simp
  from lt mx show "int (slot H k i) \<le> INT_MAX" by simp
qed

lemma sum_list_upt: "sum_list (map f [0 ..< n]) = (\<Sum>k<n. f k)"
  by (simp add: interv_sum_list_conv_sum_set_nat atLeast0LessThan)

lemma edge_reads:
  assumes ok: "hamiltonian_ok B mx H" and x: "vector_ok H x" and i: "i < sites H"
    and k: "0 \<le> k" "k < neighbor_number H ! i"
  shows "c_int (k * n_atoms H + int i) = Some (int (slot H (nat k) i))"
    and "rd (neighbor_list H) (int (slot H (nat k) i)) = Some (int (neighbor H (nat k) i))"
    and "rd (hopping_real H) (int (slot H (nat k) i)) = Some (hopping_real H ! slot H (nat k) i)"
    and "rd (hopping_imag H) (int (slot H (nat k) i)) = Some (hopping_imag H ! slot H (nat k) i)"
    and "rd (real_part x) (int (neighbor H (nat k) i)) = Some (real_part x ! neighbor H (nat k) i)"
    and "rd (imag_part x) (int (neighbor H (nat k) i)) = Some (imag_part x ! neighbor H (nat k) i)"
    and "xx_ok mx H \<Longrightarrow> rd (xx H) (int (slot H (nat k) i)) = Some (xx H ! slot H (nat k) i)"
proof -
  have deg: "nat k < degree H i"
    using k by (simp add: degree_def)
  have N: "0 < n_atoms H"
    using ok by (simp add: hamiltonian_ok_def)
  have idx: "k * n_atoms H + int i = int (slot H (nat k) i)"
    using N k(1) by (simp add: slot_def sites_def)
  show "c_int (k * n_atoms H + int i) = Some (int (slot H (nat k) i))"
    unfolding idx using slot_bound(2) [OF ok i deg] by (simp add: c_int_def INT_MAX_def)
  have len: "length (neighbor_list H) = nat (n_atoms H * mx)"
    "length (hopping_real H) = nat (n_atoms H * mx)"
    "length (hopping_imag H) = nat (n_atoms H * mx)"
    using ok by (simp_all add: hamiltonian_ok_def)
  have nb: "0 \<le> neighbor_list H ! slot H (nat k) i" "neighbor_list H ! slot H (nat k) i < n_atoms H"
    using ok i deg by (auto simp: hamiltonian_ok_def)
  show "rd (neighbor_list H) (int (slot H (nat k) i)) = Some (int (neighbor H (nat k) i))"
    using slot_bound(1) [OF ok i deg] nb(1) by (simp add: rd_int len neighbor_def)
  show "rd (hopping_real H) (int (slot H (nat k) i)) = Some (hopping_real H ! slot H (nat k) i)"
    using slot_bound(1) [OF ok i deg] by (simp add: rd_int len)
  show "rd (hopping_imag H) (int (slot H (nat k) i)) = Some (hopping_imag H ! slot H (nat k) i)"
    using slot_bound(1) [OF ok i deg] by (simp add: rd_int len)
  have "neighbor H (nat k) i < sites H"
    using nb by (simp add: neighbor_def sites_def)
  then show "rd (real_part x) (int (neighbor H (nat k) i)) = Some (real_part x ! neighbor H (nat k) i)"
    and "rd (imag_part x) (int (neighbor H (nat k) i)) = Some (imag_part x ! neighbor H (nat k) i)"
    using x by (simp_all add: rd_int vector_ok_def)
  show "xx_ok mx H \<Longrightarrow> rd (xx H) (int (slot H (nat k) i)) = Some (xx H ! slot H (nat k) i)"
    using slot_bound(1) [OF ok i deg] by (simp add: rd_int xx_ok_def)
qed

lemma degree_reads:
  assumes ok: "hamiltonian_ok B mx H" and i: "i < sites H"
  shows "rd (neighbor_number H) (int i) = Some (neighbor_number H ! i)"
    and "0 \<le> neighbor_number H ! i" and "neighbor_number H ! i \<le> INT_MAX"
    and "nat (neighbor_number H ! i) = degree H i"
proof -
  show "rd (neighbor_number H) (int i) = Some (neighbor_number H ! i)"
    using ok i by (simp add: rd_int hamiltonian_ok_def)
  show nn: "0 \<le> neighbor_number H ! i"
    using ok i by (auto simp: hamiltonian_ok_def)
  have "neighbor_number H ! i \<le> mx" "0 < n_atoms H" "n_atoms H * mx \<le> INT_MAX" "0 \<le> mx"
    using ok i by (auto simp: hamiltonian_ok_def)
  moreover from this have "1 * mx \<le> n_atoms H * mx"
    by (intro mult_right_mono) simp_all
  ultimately show "neighbor_number H ! i \<le> INT_MAX"
    by simp
  show "nat (neighbor_number H ! i) = degree H i"
    by (simp add: degree_def)
qed

lemma hopping_loop:
  assumes ok: "hamiltonian_ok B mx H" and x: "vector_ok H x" and i: "i < sites H"
  shows "for_loop (\<lambda>m. do { nn \<leftarrow> rd (neighbor_number H) (int i); Some (m < nn) })
     (\<lambda>m (temp_real, temp_imag). do {
        index_1 \<leftarrow> c_int (m * n_atoms H + int i);
        index_2 \<leftarrow> rd (neighbor_list H) index_1;
        a \<leftarrow> rd (hopping_real H) index_1;
        b \<leftarrow> rd (hopping_imag H) index_1;
        c \<leftarrow> rd (real_part x) index_2;
        d \<leftarrow> rd (imag_part x) index_2;
        Some (temp_real + (a * c - b * d), temp_imag + (a * d + b * c))
      }) 0 (a0, b0)
   = Some (a0 + (\<Sum>k<degree H i. Re (hop_term H x i k)),
           b0 + (\<Sum>k<degree H i. Im (hop_term H x i k)))"
proof -
  note dr = degree_reads [OF ok i]
  have "for_loop (\<lambda>m. do { nn \<leftarrow> rd (neighbor_number H) (int i); Some (m < nn) })
     (\<lambda>m (temp_real, temp_imag). do {
        index_1 \<leftarrow> c_int (m * n_atoms H + int i);
        index_2 \<leftarrow> rd (neighbor_list H) index_1;
        a \<leftarrow> rd (hopping_real H) index_1;
        b \<leftarrow> rd (hopping_imag H) index_1;
        c \<leftarrow> rd (real_part x) index_2;
        d \<leftarrow> rd (imag_part x) index_2;
        Some (temp_real + (a * c - b * d), temp_imag + (a * d + b * c))
      }) 0 (a0, b0)
   = Some (fold (\<lambda>k (a, b). (a + Re (hop_term H x i k), b + Im (hop_term H x i k)))
        [nat 0 ..< nat (neighbor_number H ! i)] (a0, b0))"
  proof (rule for_loop_counted)
    show "(do { nn \<leftarrow> rd (neighbor_number H) (int i); Some (k < nn) }) = Some (k < neighbor_number H ! i)" for k
      by (simp add: dr(1))
    show "neighbor_number H ! i \<le> INT_MAX" "0 \<le> neighbor_number H ! i"
      by (rule dr)+
    show "(0::int) \<le> 0" by simp
  next
    fix k :: int and a :: "real \<times> real"
    assume k: "0 \<le> k" "k < neighbor_number H ! i"
    note er = edge_reads [OF ok x i k]
    show "(case a of (temp_real, temp_imag) \<Rightarrow> do {
        index_1 \<leftarrow> c_int (k * n_atoms H + int i);
        index_2 \<leftarrow> rd (neighbor_list H) index_1;
        a \<leftarrow> rd (hopping_real H) index_1;
        b \<leftarrow> rd (hopping_imag H) index_1;
        c \<leftarrow> rd (real_part x) index_2;
        d \<leftarrow> rd (imag_part x) index_2;
        Some (temp_real + (a * c - b * d), temp_imag + (a * d + b * c)) })
      = Some (case a of (a, b) \<Rightarrow> (a + Re (hop_term H x i (nat k)), b + Im (hop_term H x i (nat k))))"
      by (cases a) (simp add: er(1-6) hop_term_def hopping_def amp_def)
  qed
  then show ?thesis
    by (simp add: fold_add_pair sum_list_upt dr(4))
qed

lemma overwrite_0 [simp]: "overwrite 0 v xs = xs"
  by (simp add: overwrite_def map_nth)

lemma length_overwrite [simp]: "length (overwrite N v xs) = length xs"
  by (simp add: overwrite_def)

lemma nth_overwrite:
  "j < length xs \<Longrightarrow> overwrite N v xs ! j = (if j < N then v j else xs ! j)"
  by (simp add: overwrite_def)

lemma overwrite_Suc:
  "t < length xs \<Longrightarrow> w = v t \<Longrightarrow> (overwrite t v xs)[t := w] = overwrite (Suc t) v xs"
  by (rule nth_equalityI) (auto simp: nth_overwrite nth_list_update less_Suc_eq)

lemma launch_invariant:
  assumes step: "\<And>t s. t < G * B \<Longrightarrow> I t s \<Longrightarrow>
      \<exists>s'. kern (t div B) B (t mod B) s = Some s' \<and> I (Suc t) s'"
    and init: "I 0 s0"
  shows "\<exists>s'. launch G B kern s0 = Some s' \<and> I (G * B) s'"
  unfolding launch_def using step init by (rule run_threads_invariant)

lemma thread_index:
  assumes ok: "hamiltonian_ok B mx H" and t: "t < nat (grid_size H) * B"
  shows "c_int (int (t div B * B + t mod B)) = Some (int t)"
proof -
  have "grid_size H * int B \<le> INT_MAX"
    using ok unfolding hamiltonian_ok_def by blast
  then have "int (nat (grid_size H) * B) \<le> INT_MAX"
    by (cases "0 \<le> grid_size H") (simp_all add: INT_MAX_def)
  then have "int t \<le> INT_MAX"
    using t by linarith
  then show ?thesis
    by (simp add: c_int_def INT_MAX_def)
qed

lemma fold_sub_pair:
  "fold (\<lambda>k (a, b). (a - f k, b - g k)) ks (a0 :: real, b0 :: real)
     = (a0 - sum_list (map f ks), b0 - sum_list (map g ks))"
  by (induction ks arbitrary: a0 b0) (simp_all add: diff_diff_eq)

lemma fold_add_quad:
  "fold (\<lambda>k (a, b, c, d). (a + f k, b + g k, c + p k, d + q k)) ks (a0, b0, c0, d0)
     = (a0 + sum_list (map f ks), b0 + sum_list (map g ks),
        c0 + sum_list (map p ks), d0 + sum_list (map q ks))"
  by (induction ks arbitrary: a0 b0 c0 d0) (simp_all add: add.assoc)

lemma Re_edge_term: "Re (edge_term H x i k) = Re (hop_term H x i k) * edge_scalar H k i"
  and Im_edge_term: "Im (edge_term H x i k) = Im (hop_term H x i k) * edge_scalar H k i"
  by (simp_all add: edge_term_def hop_term_def)

lemma commutator_loop:
  assumes ok: "hamiltonian_ok B mx H" and xs: "xx_ok mx H" and x: "vector_ok H x"
    and i: "i < sites H"
  shows "for_loop (\<lambda>m. do { nn \<leftarrow> rd (neighbor_number H) (int i); Some (m < nn) })
     (\<lambda>m (temp_real, temp_imag). do {
        index_1 \<leftarrow> c_int (m * n_atoms H + int i);
        index_2 \<leftarrow> rd (neighbor_list H) index_1;
        a \<leftarrow> rd (hopping_real H) index_1;
        b \<leftarrow> rd (hopping_imag H) index_1;
        c \<leftarrow> rd (real_part x) index_2;
        d \<leftarrow> rd (imag_part x) index_2;
        x \<leftarrow> rd (xx H) index_1;
        Some (temp_real - (a * c - b * d) * x, temp_imag - (a * d + b * c) * x)
      }) 0 (a0, b0)
   = Some (a0 - (\<Sum>k<degree H i. Re (edge_term H x i k)),
           b0 - (\<Sum>k<degree H i. Im (edge_term H x i k)))"
proof -
  note dr = degree_reads [OF ok i]
  have "for_loop (\<lambda>m. do { nn \<leftarrow> rd (neighbor_number H) (int i); Some (m < nn) })
     (\<lambda>m (temp_real, temp_imag). do {
        index_1 \<leftarrow> c_int (m * n_atoms H + int i);
        index_2 \<leftarrow> rd (neighbor_list H) index_1;
        a \<leftarrow> rd (hopping_real H) index_1;
        b \<leftarrow> rd (hopping_imag H) index_1;
        c \<leftarrow> rd (real_part x) index_2;
        d \<leftarrow> rd (imag_part x) index_2;
        x \<leftarrow> rd (xx H) index_1;
        Some (temp_real - (a * c - b * d) * x, temp_imag - (a * d + b * c) * x)
      }) 0 (a0, b0)
   = Some (fold (\<lambda>k (a, b). (a - Re (edge_term H x i k), b - Im (edge_term H x i k)))
        [nat 0 ..< nat (neighbor_number H ! i)] (a0, b0))"
  proof (rule for_loop_counted)
    show "(do { nn \<leftarrow> rd (neighbor_number H) (int i); Some (k < nn) })
        = Some (k < neighbor_number H ! i)" for k
      by (simp add: dr(1))
    show "neighbor_number H ! i \<le> INT_MAX" "0 \<le> neighbor_number H ! i"
      by (rule dr)+
    show "(0::int) \<le> 0" by simp
  next
    fix k :: int and a :: "real \<times> real"
    assume k: "0 \<le> k" "k < neighbor_number H ! i"
    note er = edge_reads [OF ok x i k]
    show "(case a of (temp_real, temp_imag) \<Rightarrow> do {
        index_1 \<leftarrow> c_int (k * n_atoms H + int i);
        index_2 \<leftarrow> rd (neighbor_list H) index_1;
        a \<leftarrow> rd (hopping_real H) index_1;
        b \<leftarrow> rd (hopping_imag H) index_1;
        c \<leftarrow> rd (real_part x) index_2;
        d \<leftarrow> rd (imag_part x) index_2;
        x \<leftarrow> rd (xx H) index_1;
        Some (temp_real - (a * c - b * d) * x, temp_imag - (a * d + b * c) * x) })
      = Some (case a of (a, b) \<Rightarrow>
          (a - Re (edge_term H x i (nat k)), b - Im (edge_term H x i (nat k))))"
      by (cases a)
        (simp add: er(1-6) er(7) [OF xs] Re_edge_term Im_edge_term hop_term_def hopping_def
          amp_def edge_scalar_def)
  qed
  then show ?thesis
    by (simp add: fold_sub_pair sum_list_upt dr(4))
qed

lemma current_loop:
  assumes ok: "hamiltonian_ok B mx H" and xs: "xx_ok mx H" and x: "vector_ok H x"
    and i: "i < sites H"
  shows "for_loop (\<lambda>m. do { nn \<leftarrow> rd (neighbor_number H) (int i); Some (m < nn) })
     (\<lambda>m (temp_real, temp_imag). do {
        index_1 \<leftarrow> c_int (m * n_atoms H + int i);
        index_2 \<leftarrow> rd (neighbor_list H) index_1;
        a \<leftarrow> rd (hopping_real H) index_1;
        b \<leftarrow> rd (hopping_imag H) index_1;
        c \<leftarrow> rd (real_part x) index_2;
        d \<leftarrow> rd (imag_part x) index_2;
        x \<leftarrow> rd (xx H) index_1;
        x' \<leftarrow> rd (xx H) index_1;
        Some (temp_real + (a * c - b * d) * x, temp_imag + (a * d + b * c) * x')
      }) 0 (a0, b0)
   = Some (a0 + (\<Sum>k<degree H i. Re (edge_term H x i k)),
           b0 + (\<Sum>k<degree H i. Im (edge_term H x i k)))"
proof -
  note dr = degree_reads [OF ok i]
  have "for_loop (\<lambda>m. do { nn \<leftarrow> rd (neighbor_number H) (int i); Some (m < nn) })
     (\<lambda>m (temp_real, temp_imag). do {
        index_1 \<leftarrow> c_int (m * n_atoms H + int i);
        index_2 \<leftarrow> rd (neighbor_list H) index_1;
        a \<leftarrow> rd (hopping_real H) index_1;
        b \<leftarrow> rd (hopping_imag H) index_1;
        c \<leftarrow> rd (real_part x) index_2;
        d \<leftarrow> rd (imag_part x) index_2;
        x \<leftarrow> rd (xx H) index_1;
        x' \<leftarrow> rd (xx H) index_1;
        Some (temp_real + (a * c - b * d) * x, temp_imag + (a * d + b * c) * x')
      }) 0 (a0, b0)
   = Some (fold (\<lambda>k (a, b). (a + Re (edge_term H x i k), b + Im (edge_term H x i k)))
        [nat 0 ..< nat (neighbor_number H ! i)] (a0, b0))"
  proof (rule for_loop_counted)
    show "(do { nn \<leftarrow> rd (neighbor_number H) (int i); Some (k < nn) })
        = Some (k < neighbor_number H ! i)" for k
      by (simp add: dr(1))
    show "neighbor_number H ! i \<le> INT_MAX" "0 \<le> neighbor_number H ! i"
      by (rule dr)+
    show "(0::int) \<le> 0" by simp
  next
    fix k :: int and a :: "real \<times> real"
    assume k: "0 \<le> k" "k < neighbor_number H ! i"
    note er = edge_reads [OF ok x i k]
    show "(case a of (temp_real, temp_imag) \<Rightarrow> do {
        index_1 \<leftarrow> c_int (k * n_atoms H + int i);
        index_2 \<leftarrow> rd (neighbor_list H) index_1;
        a \<leftarrow> rd (hopping_real H) index_1;
        b \<leftarrow> rd (hopping_imag H) index_1;
        c \<leftarrow> rd (real_part x) index_2;
        d \<leftarrow> rd (imag_part x) index_2;
        x \<leftarrow> rd (xx H) index_1;
        x' \<leftarrow> rd (xx H) index_1;
        Some (temp_real + (a * c - b * d) * x, temp_imag + (a * d + b * c) * x') })
      = Some (case a of (a, b) \<Rightarrow>
          (a + Re (edge_term H x i (nat k)), b + Im (edge_term H x i (nat k))))"
      by (cases a)
        (simp add: er(1-6) er(7) [OF xs] Re_edge_term Im_edge_term hop_term_def hopping_def
          amp_def edge_scalar_def)
  qed
  then show ?thesis
    by (simp add: fold_add_pair sum_list_upt dr(4))
qed

lemma shadow_loop:
  assumes ok: "hamiltonian_ok B mx H" and xs: "xx_ok mx H" and x: "vector_ok H x"
    and y: "vector_ok H y" and i: "i < sites H"
  shows "for_loop (\<lambda>m. do { nn \<leftarrow> rd (neighbor_number H) (int i); Some (m < nn) })
     (\<lambda>m (temp_real, temp_imag, temp_x_real, temp_x_imag). do {
        index_1 \<leftarrow> c_int (m * n_atoms H + int i);
        index_2 \<leftarrow> rd (neighbor_list H) index_1;
        a \<leftarrow> rd (hopping_real H) index_1;
        b \<leftarrow> rd (hopping_imag H) index_1;
        c \<leftarrow> rd (real_part x) index_2;
        d \<leftarrow> rd (imag_part x) index_2;
        cx \<leftarrow> rd (real_part y) index_2;
        dx \<leftarrow> rd (imag_part y) index_2;
        x \<leftarrow> rd (xx H) index_1;
        Some (temp_real + (a * c - b * d), temp_imag + (a * d + b * c),
              temp_x_real + (a * cx - b * dx) - (a * c - b * d) * x,
              temp_x_imag + (a * dx + b * cx) - (a * d + b * c) * x)
      }) 0 (a0, b0, c0, d0)
   = Some (a0 + (\<Sum>k<degree H i. Re (hop_term H x i k)),
           b0 + (\<Sum>k<degree H i. Im (hop_term H x i k)),
           c0 + (\<Sum>k<degree H i. Re (hop_term H y i k - edge_term H x i k)),
           d0 + (\<Sum>k<degree H i. Im (hop_term H y i k - edge_term H x i k)))"
proof -
  note dr = degree_reads [OF ok i]
  have "for_loop (\<lambda>m. do { nn \<leftarrow> rd (neighbor_number H) (int i); Some (m < nn) })
     (\<lambda>m (temp_real, temp_imag, temp_x_real, temp_x_imag). do {
        index_1 \<leftarrow> c_int (m * n_atoms H + int i);
        index_2 \<leftarrow> rd (neighbor_list H) index_1;
        a \<leftarrow> rd (hopping_real H) index_1;
        b \<leftarrow> rd (hopping_imag H) index_1;
        c \<leftarrow> rd (real_part x) index_2;
        d \<leftarrow> rd (imag_part x) index_2;
        cx \<leftarrow> rd (real_part y) index_2;
        dx \<leftarrow> rd (imag_part y) index_2;
        x \<leftarrow> rd (xx H) index_1;
        Some (temp_real + (a * c - b * d), temp_imag + (a * d + b * c),
              temp_x_real + (a * cx - b * dx) - (a * c - b * d) * x,
              temp_x_imag + (a * dx + b * cx) - (a * d + b * c) * x)
      }) 0 (a0, b0, c0, d0)
   = Some (fold (\<lambda>k (a, b, c, d).
          (a + Re (hop_term H x i k), b + Im (hop_term H x i k),
           c + Re (hop_term H y i k - edge_term H x i k),
           d + Im (hop_term H y i k - edge_term H x i k)))
        [nat 0 ..< nat (neighbor_number H ! i)] (a0, b0, c0, d0))"
  proof (rule for_loop_counted)
    show "(do { nn \<leftarrow> rd (neighbor_number H) (int i); Some (k < nn) })
        = Some (k < neighbor_number H ! i)" for k
      by (simp add: dr(1))
    show "neighbor_number H ! i \<le> INT_MAX" "0 \<le> neighbor_number H ! i"
      by (rule dr)+
    show "(0::int) \<le> 0" by simp
  next
    fix k :: int and a :: "real \<times> real \<times> real \<times> real"
    assume k: "0 \<le> k" "k < neighbor_number H ! i"
    note er = edge_reads [OF ok x i k] and ery = edge_reads(5,6) [OF ok y i k]
    obtain a1 a2 a3 a4 where a: "a = (a1, a2, a3, a4)"
      by (cases a) auto
    show "(case a of (temp_real, temp_imag, temp_x_real, temp_x_imag) \<Rightarrow> do {
        index_1 \<leftarrow> c_int (k * n_atoms H + int i);
        index_2 \<leftarrow> rd (neighbor_list H) index_1;
        a \<leftarrow> rd (hopping_real H) index_1;
        b \<leftarrow> rd (hopping_imag H) index_1;
        c \<leftarrow> rd (real_part x) index_2;
        d \<leftarrow> rd (imag_part x) index_2;
        cx \<leftarrow> rd (real_part y) index_2;
        dx \<leftarrow> rd (imag_part y) index_2;
        x \<leftarrow> rd (xx H) index_1;
        Some (temp_real + (a * c - b * d), temp_imag + (a * d + b * c),
              temp_x_real + (a * cx - b * dx) - (a * c - b * d) * x,
              temp_x_imag + (a * dx + b * cx) - (a * d + b * c) * x) })
      = Some (case a of (a, b, c, d) \<Rightarrow>
          (a + Re (hop_term H x i (nat k)), b + Im (hop_term H x i (nat k)),
           c + Re (hop_term H y i (nat k) - edge_term H x i (nat k)),
           d + Im (hop_term H y i (nat k) - edge_term H x i (nat k))))"
      unfolding a
      by (simp add: er(1-6) ery er(7) [OF xs] Re_edge_term Im_edge_term hop_term_def hopping_def
          amp_def edge_scalar_def Let_def add_diff_eq)
  qed
  then show ?thesis
    by (simp add: fold_add_quad sum_list_upt dr(4))
qed

lemma apply_site_hop:
  "apply_site H x t =
     (of_real (potential H ! t) * amp x t + (\<Sum>k<degree H t. hop_term H x t k))
       / of_real (energy_max H)"
  by (simp add: apply_site_def hop_term_def)

lemma edge_sum_term: "edge_sum H x t = (\<Sum>k<degree H t. edge_term H x t k)"
  by (simp add: edge_sum_def edge_term_def)

lemma site_lengths:
  assumes "hamiltonian_ok B mx H" "t < sites H"
  shows "t < length (potential H)" "int t < n_atoms H"
  using assms by (simp_all add: hamiltonian_ok_def sites_def)

lemma vector_lengths:
  assumes "vector_ok H x" "t < sites H"
  shows "t < length (real_part x)" "t < length (imag_part x)"
  using assms by (simp_all add: vector_ok_def)

lemma not_site: "\<not> t < sites H \<Longrightarrow> \<not> int t < n_atoms H"
  by (simp add: sites_def)

lemma apply_thread:
  assumes ok: "hamiltonian_ok B mx H" and x: "vector_ok H x"
    and lens: "sites H \<le> length outr" "sites H \<le> length outi"
    and idx: "c_int (int (b * d + tt)) = Some (int t)"
  shows "gpu_apply_hamiltonian b d tt (n_atoms H) (energy_max H)
      (neighbor_number H) (neighbor_list H) (potential H)
      (hopping_real H) (hopping_imag H) (real_part x) (imag_part x) (outr, outi)
   = Some (if t < sites H
       then (outr[t := Re (apply_site H x t)], outi[t := Im (apply_site H x t)])
       else (outr, outi))"
proof (cases "t < sites H")
  case True
  have len: "t < length outr" "t < length outi"
    using lens True by simp_all
  show ?thesis
    using idx by (simp add: True site_lengths [OF ok True] vector_lengths [OF x True] len
        rd_int wr_int hopping_loop [OF ok x True] apply_site_hop amp_def)
next
  case False
  then show ?thesis
    using idx by (simp add: not_site)
qed

lemma commutator_thread:
  assumes ok: "hamiltonian_ok B mx H" and xs: "xx_ok mx H" and x: "vector_ok H x"
    and lens: "sites H \<le> length outr" "sites H \<le> length outi"
    and idx: "c_int (int (b * d + tt)) = Some (int t)"
  shows "gpu_apply_commutator b d tt (n_atoms H) (energy_max H)
      (neighbor_number H) (neighbor_list H)
      (hopping_real H) (hopping_imag H) (xx H) (real_part x) (imag_part x) (outr, outi)
   = Some (if t < sites H
       then (outr[t := Re (commutator_site H x t)], outi[t := Im (commutator_site H x t)])
       else (outr, outi))"
proof (cases "t < sites H")
  case True
  have len: "t < length outr" "t < length outi"
    using lens True by simp_all
  show ?thesis
    using idx by (simp add: True site_lengths [OF ok True] len
        wr_int commutator_loop [OF ok xs x True] commutator_site_def edge_sum_term)
next
  case False
  then show ?thesis
    using idx by (simp add: not_site)
qed

lemma current_thread:
  assumes ok: "hamiltonian_ok B mx H" and xs: "xx_ok mx H" and x: "vector_ok H x"
    and lens: "sites H \<le> length outr" "sites H \<le> length outi"
    and idx: "c_int (int (b * d + tt)) = Some (int t)"
  shows "gpu_apply_current b d tt (n_atoms H)
      (neighbor_number H) (neighbor_list H)
      (hopping_real H) (hopping_imag H) (xx H) (real_part x) (imag_part x) (outr, outi)
   = Some (if t < sites H
       then (outr[t := Im (edge_sum H x t)], outi[t := - Re (edge_sum H x t)])
       else (outr, outi))"
proof (cases "t < sites H")
  case True
  have len: "t < length outr" "t < length outi"
    using lens True by simp_all
  show ?thesis
    using idx by (simp add: True site_lengths [OF ok True] len
        wr_int current_loop [OF ok xs x True] edge_sum_term)
next
  case False
  then show ?thesis
    using idx by (simp add: not_site)
qed

lemma chebyshev_01_thread:
  assumes ok: "hamiltonian_ok B mx H" and s0: "vector_ok H s0" and s1: "vector_ok H s1"
    and lens: "sites H \<le> length outr" "sites H \<le> length outi"
    and idx: "c_int (int (b * d + tt)) = Some (int t)"
  shows "gpu_chebyshev_01 b d tt (n_atoms H)
      (real_part s0) (imag_part s0) (real_part s1) (imag_part s1) b0 b1 direction (outr, outi)
   = Some (if t < sites H
       then (outr[t := b0 * real_part s0 ! t + b1 * of_int direction * imag_part s1 ! t],
             outi[t := b0 * imag_part s0 ! t - b1 * of_int direction * real_part s1 ! t])
       else (outr, outi))"
proof (cases "t < sites H")
  case True
  have len: "t < length outr" "t < length outi"
    using lens True by simp_all
  show ?thesis
    using idx by (simp add: True site_lengths [OF ok True] len
        vector_lengths [OF s0 True] vector_lengths [OF s1 True] rd_int wr_int Let_def)
next
  case False
  then show ?thesis
    using idx by (simp add: not_site)
qed

lemma kernel_polynomial_thread:
  assumes ok: "hamiltonian_ok B mx H" and s0: "vector_ok H s0" and s1: "vector_ok H s1"
    and lens: "sites H \<le> length outr" "sites H \<le> length outi"
    and idx: "c_int (int (b * d + tt)) = Some (int t)"
  shows "gpu_kernel_polynomial b d tt (n_atoms H) (energy_max H)
      (neighbor_number H) (neighbor_list H) (potential H)
      (hopping_real H) (hopping_imag H)
      (real_part s0) (imag_part s0) (real_part s1) (imag_part s1) (outr, outi)
   = Some (if t < sites H
       then (outr[t := Re (recurrence_site H s0 s1 t)], outi[t := Im (recurrence_site H s0 s1 t)])
       else (outr, outi))"
proof (cases "t < sites H")
  case True
  have len: "t < length outr" "t < length outi"
    using lens True by simp_all
  show ?thesis
    using idx by (simp add: True site_lengths [OF ok True] len
        vector_lengths [OF s0 True] vector_lengths [OF s1 True] rd_int wr_int
        hopping_loop [OF ok s1 True] recurrence_site_def apply_site_hop amp_def Let_def)
next
  case False
  then show ?thesis
    using idx by (simp add: not_site)
qed


lemma route_parts:
  "Re (route label bm z (Complex ar ai)) =
     (if label = 1 then ar + bm * Re z else if label = 2 then ar - bm * Re z
      else if label = 3 then ar + bm * Im z else if label = 4 then ar - bm * Im z else ar)"
  "Im (route label bm z (Complex ar ai)) =
     (if label = 1 then ai + bm * Im z else if label = 2 then ai - bm * Im z
      else if label = 3 then ai - bm * Re z else if label = 4 then ai + bm * Re z else ai)"
  by (simp_all add: route_def rot90_def)

lemma chebyshev_2_thread:
  assumes ok: "hamiltonian_ok B mx H" and s0: "vector_ok H s0" and s1: "vector_ok H s1"
    and lens: "sites H \<le> length outr" "sites H \<le> length outi"
      "sites H \<le> length accr" "sites H \<le> length acci"
    and idx: "c_int (int (b * d + tt)) = Some (int t)"
  shows "gpu_chebyshev_2 b d tt (n_atoms H) (energy_max H)
      (neighbor_number H) (neighbor_list H) (potential H)
      (hopping_real H) (hopping_imag H)
      (real_part s0) (imag_part s0) (real_part s1) (imag_part s1) bm label
      (outr, outi, accr, acci)
   = Some (if t < sites H
       then (outr[t := Re (recurrence_site H s0 s1 t)],
             outi[t := Im (recurrence_site H s0 s1 t)],
             accr[t := Re (route label bm (recurrence_site H s0 s1 t)
                             (Complex (accr ! t) (acci ! t)))],
             acci[t := Im (route label bm (recurrence_site H s0 s1 t)
                             (Complex (accr ! t) (acci ! t)))])
       else (outr, outi, accr, acci))"
proof (cases "t < sites H")
  case True
  have len: "t < length outr" "t < length outi" "t < length accr" "t < length acci"
    using lens True by simp_all
  have z: "Re (recurrence_site H s0 s1 t)
      = 2 * ((potential H ! t * real_part s1 ! t + (\<Sum>k<degree H t. Re (hop_term H s1 t k)))
          / energy_max H) - real_part s0 ! t"
    "Im (recurrence_site H s0 s1 t)
      = 2 * ((potential H ! t * imag_part s1 ! t + (\<Sum>k<degree H t. Im (hop_term H s1 t k)))
          / energy_max H) - imag_part s0 ! t"
    by (simp_all add: recurrence_site_def apply_site_hop amp_def)
  show ?thesis
    using idx
    by (simp add: True site_lengths [OF ok True] len
        vector_lengths [OF s0 True] vector_lengths [OF s1 True] rd_int wr_int
        hopping_loop [OF ok s1 True] route_parts Let_def z)
next
  case False
  then show ?thesis
    using idx by (simp add: not_site)
qed

lemma shadow_site_parts:
  "Re (shadow_site H s0x s1 s1x t)
      = 2 * ((potential H ! t * real_part s1x ! t
              + (\<Sum>k<degree H t. Re (hop_term H s1x t k - edge_term H s1 t k)))
          / energy_max H) - real_part s0x ! t"
  "Im (shadow_site H s0x s1 s1x t)
      = 2 * ((potential H ! t * imag_part s1x ! t
              + (\<Sum>k<degree H t. Im (hop_term H s1x t k - edge_term H s1 t k)))
          / energy_max H) - imag_part s0x ! t"
  by (simp_all add: shadow_site_def apply_site_hop commutator_site_def edge_sum_term amp_def
      sum_subtractf add_divide_distrib diff_divide_distrib algebra_simps)

lemma chebyshev_2x_thread:
  assumes ok: "hamiltonian_ok B mx H" and xs: "xx_ok mx H"
    and s0: "vector_ok H s0" and s0x: "vector_ok H s0x"
    and s1: "vector_ok H s1" and s1x: "vector_ok H s1x"
    and lens: "sites H \<le> length outr" "sites H \<le> length outi"
      "sites H \<le> length outxr" "sites H \<le> length outxi"
      "sites H \<le> length accr" "sites H \<le> length acci"
    and idx: "c_int (int (b * d + tt)) = Some (int t)"
  shows "gpu_chebyshev_2x b d tt (n_atoms H) (energy_max H)
      (neighbor_number H) (neighbor_list H) (potential H)
      (hopping_real H) (hopping_imag H) (xx H)
      (real_part s0) (imag_part s0) (real_part s0x) (imag_part s0x)
      (real_part s1) (imag_part s1) (real_part s1x) (imag_part s1x) bm label
      (outr, outi, outxr, outxi, accr, acci)
   = Some (if t < sites H
       then (outr[t := Re (recurrence_site H s0 s1 t)],
             outi[t := Im (recurrence_site H s0 s1 t)],
             outxr[t := Re (shadow_site H s0x s1 s1x t)],
             outxi[t := Im (shadow_site H s0x s1 s1x t)],
             accr[t := Re (route label bm (shadow_site H s0x s1 s1x t)
                             (Complex (accr ! t) (acci ! t)))],
             acci[t := Im (route label bm (shadow_site H s0x s1 s1x t)
                             (Complex (accr ! t) (acci ! t)))])
       else (outr, outi, outxr, outxi, accr, acci))"
proof (cases "t < sites H")
  case True
  have len: "t < length outr" "t < length outi" "t < length outxr" "t < length outxi"
    "t < length accr" "t < length acci"
    using lens True by simp_all
  have z: "Re (recurrence_site H s0 s1 t)
      = 2 * ((potential H ! t * real_part s1 ! t + (\<Sum>k<degree H t. Re (hop_term H s1 t k)))
          / energy_max H) - real_part s0 ! t"
    "Im (recurrence_site H s0 s1 t)
      = 2 * ((potential H ! t * imag_part s1 ! t + (\<Sum>k<degree H t. Im (hop_term H s1 t k)))
          / energy_max H) - imag_part s0 ! t"
    by (simp_all add: recurrence_site_def apply_site_hop amp_def)
  show ?thesis
    using idx
    by (simp add: True site_lengths [OF ok True] len
        vector_lengths [OF s0 True] vector_lengths [OF s1 True]
        vector_lengths [OF s0x True] vector_lengths [OF s1x True] rd_int
        shadow_loop [OF ok xs s1 s1x True],
      simp add: len wr_int rd_int route_parts Let_def z shadow_site_parts)
next
  case False
  then show ?thesis
    using idx by (simp add: not_site)
qed

lemma launch_pair:
  assumes ok: "hamiltonian_ok B mx H"
    and lens: "sites H \<le> length outr" "sites H \<le> length outi"
    and thr: "\<And>t r i. t < nat (grid_size H) * B \<Longrightarrow> sites H \<le> length r \<Longrightarrow> sites H \<le> length i \<Longrightarrow>
      kern (t div B) B (t mod B) (r, i)
        = Some (if t < sites H then (r[t := vr t], i[t := vi t]) else (r, i))"
  shows "launch (nat (grid_size H)) B kern (outr, outi)
    = Some (overwrite (sites H) vr outr, overwrite (sites H) vi outi)"
proof -
  let ?I = "\<lambda>t s. s = (overwrite (min t (sites H)) vr outr, overwrite (min t (sites H)) vi outi)"
  have "\<exists>s'. launch (nat (grid_size H)) B kern (outr, outi) = Some s'
      \<and> ?I (nat (grid_size H) * B) s'"
  proof (rule launch_invariant)
    show "?I 0 (outr, outi)" by simp
  next
    fix t s
    assume t: "t < nat (grid_size H) * B" and I: "?I t s"
    have step: "kern (t div B) B (t mod B) s
        = Some (if t < sites H
            then ((overwrite (min t (sites H)) vr outr)[t := vr t],
                  (overwrite (min t (sites H)) vi outi)[t := vi t])
            else s)"
      unfolding I using lens by (intro thr [OF t]) simp_all
    show "\<exists>s'. kern (t div B) B (t mod B) s = Some s' \<and> ?I (Suc t) s'"
    proof (cases "t < sites H")
      case True
      then have "t < length outr" "t < length outi"
        using lens by simp_all
      then show ?thesis
        using True by (simp add: step min_def overwrite_Suc)
    next
      case False
      then have "kern (t div B) B (t mod B) s = Some s"
        by (simp add: step)
      moreover have "?I (Suc t) s"
        using I False by (simp add: min_def)
      ultimately show ?thesis
        by blast
    qed
  qed
  then show ?thesis
    using ok_sites_grid [OF ok] by (auto simp: min_def)
qed

lemma launch_quad:
  assumes ok: "hamiltonian_ok B mx H"
    and lens: "sites H \<le> length outr" "sites H \<le> length outi"
      "sites H \<le> length accr" "sites H \<le> length acci"
    and thr: "\<And>t r i ar ai. t < nat (grid_size H) * B \<Longrightarrow> sites H \<le> length r \<Longrightarrow>
      sites H \<le> length i \<Longrightarrow> sites H \<le> length ar \<Longrightarrow> sites H \<le> length ai \<Longrightarrow>
      kern (t div B) B (t mod B) (r, i, ar, ai)
        = Some (if t < sites H
            then (r[t := vr t], i[t := vi t],
                  ar[t := fr t (ar ! t) (ai ! t)], ai[t := fi t (ar ! t) (ai ! t)])
            else (r, i, ar, ai))"
  shows "launch (nat (grid_size H)) B kern (outr, outi, accr, acci)
    = Some (overwrite (sites H) vr outr, overwrite (sites H) vi outi,
            overwrite (sites H) (\<lambda>j. fr j (accr ! j) (acci ! j)) accr,
            overwrite (sites H) (\<lambda>j. fi j (accr ! j) (acci ! j)) acci)"
proof -
  let ?ar = "\<lambda>j. fr j (accr ! j) (acci ! j)" and ?ai = "\<lambda>j. fi j (accr ! j) (acci ! j)"
  let ?I = "\<lambda>t s. s = (overwrite (min t (sites H)) vr outr, overwrite (min t (sites H)) vi outi,
      overwrite (min t (sites H)) ?ar accr, overwrite (min t (sites H)) ?ai acci)"
  have "\<exists>s'. launch (nat (grid_size H)) B kern (outr, outi, accr, acci) = Some s'
      \<and> ?I (nat (grid_size H) * B) s'"
  proof (rule launch_invariant)
    show "?I 0 (outr, outi, accr, acci)" by simp
  next
    fix t s
    assume t: "t < nat (grid_size H) * B" and I: "?I t s"
    have step: "kern (t div B) B (t mod B) s
        = Some (if t < sites H
            then ((overwrite (min t (sites H)) vr outr)[t := vr t],
                  (overwrite (min t (sites H)) vi outi)[t := vi t],
                  (overwrite (min t (sites H)) ?ar accr)
                    [t := fr t (overwrite (min t (sites H)) ?ar accr ! t)
                               (overwrite (min t (sites H)) ?ai acci ! t)],
                  (overwrite (min t (sites H)) ?ai acci)
                    [t := fi t (overwrite (min t (sites H)) ?ar accr ! t)
                               (overwrite (min t (sites H)) ?ai acci ! t)])
            else s)"
      unfolding I using lens by (intro thr [OF t]) simp_all
    show "\<exists>s'. kern (t div B) B (t mod B) s = Some s' \<and> ?I (Suc t) s'"
    proof (cases "t < sites H")
      case True
      then have "t < length outr" "t < length outi" "t < length accr" "t < length acci"
        using lens by simp_all
      then show ?thesis
        using True by (simp add: step min_def overwrite_Suc nth_overwrite)
    next
      case False
      then have "kern (t div B) B (t mod B) s = Some s"
        by (simp add: step)
      moreover have "?I (Suc t) s"
        using I False by (simp add: min_def)
      ultimately show ?thesis
        by blast
    qed
  qed
  then show ?thesis
    using ok_sites_grid [OF ok] by (auto simp: min_def)
qed

lemma launch_hex:
  assumes ok: "hamiltonian_ok B mx H"
    and lens: "sites H \<le> length outr" "sites H \<le> length outi"
      "sites H \<le> length outxr" "sites H \<le> length outxi"
      "sites H \<le> length accr" "sites H \<le> length acci"
    and thr: "\<And>t r i xr xi ar ai. t < nat (grid_size H) * B \<Longrightarrow> sites H \<le> length r \<Longrightarrow>
      sites H \<le> length i \<Longrightarrow> sites H \<le> length xr \<Longrightarrow> sites H \<le> length xi \<Longrightarrow>
      sites H \<le> length ar \<Longrightarrow> sites H \<le> length ai \<Longrightarrow>
      kern (t div B) B (t mod B) (r, i, xr, xi, ar, ai)
        = Some (if t < sites H
            then (r[t := vr t], i[t := vi t], xr[t := vxr t], xi[t := vxi t],
                  ar[t := fr t (ar ! t) (ai ! t)], ai[t := fi t (ar ! t) (ai ! t)])
            else (r, i, xr, xi, ar, ai))"
  shows "launch (nat (grid_size H)) B kern (outr, outi, outxr, outxi, accr, acci)
    = Some (overwrite (sites H) vr outr, overwrite (sites H) vi outi,
            overwrite (sites H) vxr outxr, overwrite (sites H) vxi outxi,
            overwrite (sites H) (\<lambda>j. fr j (accr ! j) (acci ! j)) accr,
            overwrite (sites H) (\<lambda>j. fi j (accr ! j) (acci ! j)) acci)"
proof -
  let ?ar = "\<lambda>j. fr j (accr ! j) (acci ! j)" and ?ai = "\<lambda>j. fi j (accr ! j) (acci ! j)"
  let ?I = "\<lambda>t s. s = (overwrite (min t (sites H)) vr outr, overwrite (min t (sites H)) vi outi,
      overwrite (min t (sites H)) vxr outxr, overwrite (min t (sites H)) vxi outxi,
      overwrite (min t (sites H)) ?ar accr, overwrite (min t (sites H)) ?ai acci)"
  have "\<exists>s'. launch (nat (grid_size H)) B kern (outr, outi, outxr, outxi, accr, acci) = Some s'
      \<and> ?I (nat (grid_size H) * B) s'"
  proof (rule launch_invariant)
    show "?I 0 (outr, outi, outxr, outxi, accr, acci)" by simp
  next
    fix t s
    assume t: "t < nat (grid_size H) * B" and I: "?I t s"
    have step: "kern (t div B) B (t mod B) s
        = Some (if t < sites H
            then ((overwrite (min t (sites H)) vr outr)[t := vr t],
                  (overwrite (min t (sites H)) vi outi)[t := vi t],
                  (overwrite (min t (sites H)) vxr outxr)[t := vxr t],
                  (overwrite (min t (sites H)) vxi outxi)[t := vxi t],
                  (overwrite (min t (sites H)) ?ar accr)
                    [t := fr t (overwrite (min t (sites H)) ?ar accr ! t)
                               (overwrite (min t (sites H)) ?ai acci ! t)],
                  (overwrite (min t (sites H)) ?ai acci)
                    [t := fi t (overwrite (min t (sites H)) ?ar accr ! t)
                               (overwrite (min t (sites H)) ?ai acci ! t)])
            else s)"
      unfolding I using lens by (intro thr [OF t]) simp_all
    show "\<exists>s'. kern (t div B) B (t mod B) s = Some s' \<and> ?I (Suc t) s'"
    proof (cases "t < sites H")
      case True
      then have "t < length outr" "t < length outi" "t < length outxr" "t < length outxi"
        "t < length accr" "t < length acci"
        using lens by simp_all
      then show ?thesis
        using True by (simp add: step min_def overwrite_Suc nth_overwrite)
    next
      case False
      then have "kern (t div B) B (t mod B) s = Some s"
        by (simp add: step)
      moreover have "?I (Suc t) s"
        using I False by (simp add: min_def)
      ultimately show ?thesis
        by blast
    qed
  qed
  then show ?thesis
    using ok_sites_grid [OF ok] by (auto simp: min_def)
qed

text \<open>From here on the kernels are used through their thread lemmas only.\<close>

declare gpu_apply_hamiltonian.simps [simp del] gpu_apply_commutator.simps [simp del]
  gpu_apply_current.simps [simp del] gpu_chebyshev_01.simps [simp del]
  gpu_chebyshev_2.simps [simp del] gpu_chebyshev_2x.simps [simp del]
  gpu_kernel_polynomial.simps [simp del]

lemma apply_closed_form:
  assumes ok: "hamiltonian_ok B mx H" and x: "vector_ok H x" and out: "vector_ok H out"
  shows "Hamiltonian_apply B H x out =
     Some \<lparr>real_part = overwrite (sites H) (\<lambda>i. Re (apply_site H x i)) (real_part out),
           imag_part = overwrite (sites H) (\<lambda>i. Im (apply_site H x i)) (imag_part out)\<rparr>"
proof -
  have lens: "sites H \<le> length (real_part out)" "sites H \<le> length (imag_part out)"
    using out by (simp_all add: vector_ok_def)
  show ?thesis
    unfolding Hamiltonian_apply_def
    by (subst launch_pair [OF ok lens, where vr = "\<lambda>i. Re (apply_site H x i)"
          and vi = "\<lambda>i. Im (apply_site H x i)"],
        rule apply_thread [OF ok x], assumption+, rule thread_index [OF ok], assumption,
        simp add: amp_def)
qed

lemma commutator_closed_form:
  assumes ok: "hamiltonian_ok B mx H" and xs: "xx_ok mx H"
    and x: "vector_ok H x" and out: "vector_ok H out"
  shows "Hamiltonian_apply_commutator B H x out =
     Some \<lparr>real_part = overwrite (sites H) (\<lambda>i. Re (commutator_site H x i)) (real_part out),
           imag_part = overwrite (sites H) (\<lambda>i. Im (commutator_site H x i)) (imag_part out)\<rparr>"
proof -
  have lens: "sites H \<le> length (real_part out)" "sites H \<le> length (imag_part out)"
    using out by (simp_all add: vector_ok_def)
  show ?thesis
    unfolding Hamiltonian_apply_commutator_def
    by (subst launch_pair [OF ok lens, where vr = "\<lambda>i. Re (commutator_site H x i)"
          and vi = "\<lambda>i. Im (commutator_site H x i)"],
        rule commutator_thread [OF ok xs x], assumption+, rule thread_index [OF ok], assumption,
        simp add: amp_def)
qed

lemma current_closed_form:
  assumes ok: "hamiltonian_ok B mx H" and xs: "xx_ok mx H"
    and x: "vector_ok H x" and out: "vector_ok H out"
  shows "Hamiltonian_apply_current B H x out =
     Some \<lparr>real_part = overwrite (sites H) (\<lambda>i. Im (edge_sum H x i)) (real_part out),
           imag_part = overwrite (sites H) (\<lambda>i. - Re (edge_sum H x i)) (imag_part out)\<rparr>"
proof -
  have lens: "sites H \<le> length (real_part out)" "sites H \<le> length (imag_part out)"
    using out by (simp_all add: vector_ok_def)
  show ?thesis
    unfolding Hamiltonian_apply_current_def
    by (subst launch_pair [OF ok lens, where vr = "\<lambda>i. Im (edge_sum H x i)"
          and vi = "\<lambda>i. - Re (edge_sum H x i)"],
        rule current_thread [OF ok xs x], assumption+, rule thread_index [OF ok], assumption,
        simp add: amp_def)
qed

lemma chebyshev_01_closed_form:
  assumes ok: "hamiltonian_ok B mx H" and s0: "vector_ok H s0" and s1: "vector_ok H s1"
    and out: "vector_ok H out"
  shows "Hamiltonian_chebyshev_01 B H s0 s1 out b0 b1 direction =
     Some \<lparr>real_part = overwrite (sites H)
             (\<lambda>i. b0 * real_part s0 ! i + b1 * of_int direction * imag_part s1 ! i)
             (real_part out),
           imag_part = overwrite (sites H)
             (\<lambda>i. b0 * imag_part s0 ! i - b1 * of_int direction * real_part s1 ! i)
             (imag_part out)\<rparr>"
proof -
  have lens: "sites H \<le> length (real_part out)" "sites H \<le> length (imag_part out)"
    using out by (simp_all add: vector_ok_def)
  show ?thesis
    unfolding Hamiltonian_chebyshev_01_def
    by (subst launch_pair [OF ok lens, where vr = "\<lambda>i. b0 * real_part s0 ! i + b1 * of_int direction * imag_part s1 ! i"
          and vi = "\<lambda>i. b0 * imag_part s0 ! i - b1 * of_int direction * real_part s1 ! i"],
        rule chebyshev_01_thread [OF ok s0 s1], assumption+, rule thread_index [OF ok], assumption,
        simp add: amp_def)
qed

lemma kernel_polynomial_closed_form:
  assumes ok: "hamiltonian_ok B mx H" and s0: "vector_ok H s0" and s1: "vector_ok H s1"
    and out: "vector_ok H out"
  shows "Hamiltonian_kernel_polynomial B H s0 s1 out =
     Some \<lparr>real_part = overwrite (sites H) (\<lambda>i. Re (recurrence_site H s0 s1 i)) (real_part out),
           imag_part = overwrite (sites H) (\<lambda>i. Im (recurrence_site H s0 s1 i)) (imag_part out)\<rparr>"
proof -
  have lens: "sites H \<le> length (real_part out)" "sites H \<le> length (imag_part out)"
    using out by (simp_all add: vector_ok_def)
  show ?thesis
    unfolding Hamiltonian_kernel_polynomial_def
    by (subst launch_pair [OF ok lens, where vr = "\<lambda>i. Re (recurrence_site H s0 s1 i)"
          and vi = "\<lambda>i. Im (recurrence_site H s0 s1 i)"],
        rule kernel_polynomial_thread [OF ok s0 s1], assumption+, rule thread_index [OF ok], assumption,
        simp add: amp_def)
qed

lemma chebyshev_2_closed_form:
  assumes ok: "hamiltonian_ok B mx H" and s0: "vector_ok H s0" and s1: "vector_ok H s1"
    and out: "vector_ok H out" and acc: "vector_ok H acc"
  shows "Hamiltonian_chebyshev_2 B H s0 s1 out acc bm label =
     Some (\<lparr>real_part = overwrite (sites H) (\<lambda>i. Re (recurrence_site H s0 s1 i)) (real_part out),
            imag_part = overwrite (sites H) (\<lambda>i. Im (recurrence_site H s0 s1 i)) (imag_part out)\<rparr>,
           \<lparr>real_part = overwrite (sites H)
              (\<lambda>i. Re (route label bm (recurrence_site H s0 s1 i) (amp acc i))) (real_part acc),
            imag_part = overwrite (sites H)
              (\<lambda>i. Im (route label bm (recurrence_site H s0 s1 i) (amp acc i))) (imag_part acc)\<rparr>)"
proof -
  have lens: "sites H \<le> length (real_part out)" "sites H \<le> length (imag_part out)"
    "sites H \<le> length (real_part acc)" "sites H \<le> length (imag_part acc)"
    using out acc by (simp_all add: vector_ok_def)
  show ?thesis
    unfolding Hamiltonian_chebyshev_2_def
    by (subst launch_quad [OF ok lens, where vr = "\<lambda>i. Re (recurrence_site H s0 s1 i)"
          and vi = "\<lambda>i. Im (recurrence_site H s0 s1 i)"
          and fr = "\<lambda>j a b. Re (route label bm (recurrence_site H s0 s1 j) (Complex a b))"
          and fi = "\<lambda>j a b. Im (route label bm (recurrence_site H s0 s1 j) (Complex a b))"],
        rule chebyshev_2_thread [OF ok s0 s1], assumption+, rule thread_index [OF ok], assumption,
        simp add: amp_def)
qed

lemma chebyshev_2x_closed_form:
  assumes ok: "hamiltonian_ok B mx H" and xs: "xx_ok mx H"
    and s0: "vector_ok H s0" and s0x: "vector_ok H s0x"
    and s1: "vector_ok H s1" and s1x: "vector_ok H s1x"
    and out: "vector_ok H out" and outx: "vector_ok H outx" and acc: "vector_ok H acc"
  shows "Hamiltonian_chebyshev_2x B H s0 s0x s1 s1x out outx acc bm label =
     Some (\<lparr>real_part = overwrite (sites H) (\<lambda>i. Re (recurrence_site H s0 s1 i)) (real_part out),
            imag_part = overwrite (sites H) (\<lambda>i. Im (recurrence_site H s0 s1 i)) (imag_part out)\<rparr>,
           \<lparr>real_part = overwrite (sites H) (\<lambda>i. Re (shadow_site H s0x s1 s1x i)) (real_part outx),
            imag_part = overwrite (sites H) (\<lambda>i. Im (shadow_site H s0x s1 s1x i)) (imag_part outx)\<rparr>,
           \<lparr>real_part = overwrite (sites H)
              (\<lambda>i. Re (route label bm (shadow_site H s0x s1 s1x i) (amp acc i))) (real_part acc),
            imag_part = overwrite (sites H)
              (\<lambda>i. Im (route label bm (shadow_site H s0x s1 s1x i) (amp acc i))) (imag_part acc)\<rparr>)"
proof -
  have lens: "sites H \<le> length (real_part out)" "sites H \<le> length (imag_part out)"
    "sites H \<le> length (real_part outx)" "sites H \<le> length (imag_part outx)"
    "sites H \<le> length (real_part acc)" "sites H \<le> length (imag_part acc)"
    using out outx acc by (simp_all add: vector_ok_def)
  show ?thesis
    unfolding Hamiltonian_chebyshev_2x_def
    by (subst launch_hex [OF ok lens, where vr = "\<lambda>i. Re (recurrence_site H s0 s1 i)"
          and vi = "\<lambda>i. Im (recurrence_site H s0 s1 i)"
          and vxr = "\<lambda>i. Re (shadow_site H s0x s1 s1x i)"
          and vxi = "\<lambda>i. Im (shadow_site H s0x s1 s1x i)"
          and fr = "\<lambda>j a b. Re (route label bm (shadow_site H s0x s1 s1x j) (Complex a b))"
          and fi = "\<lambda>j a b. Im (route label bm (shadow_site H s0x s1 s1x j) (Complex a b))"],
        rule chebyshev_2x_thread [OF ok xs s0 s0x s1 s1x], assumption+, rule thread_index [OF ok], assumption,
        simp add: amp_def)
qed

lemma amp_overwrite:
  assumes "i < sites H" "vector_ok H out"
  shows "amp \<lparr>real_part = overwrite (sites H) (\<lambda>j. Re (f j)) (real_part out),
              imag_part = overwrite (sites H) (\<lambda>j. Im (f j)) (imag_part out)\<rparr> i = f i"
  using assms by (simp add: amp_def nth_overwrite vector_ok_def)

lemma vector_ok_overwrite:
  assumes "vector_ok H out"
  shows "vector_ok H \<lparr>real_part = overwrite N f (real_part out),
                      imag_part = overwrite N g (imag_part out)\<rparr>"
  using assms by (simp add: vector_ok_def)

section \<open>The two-site chain is well formed\<close>

lemma chain2_ok: "hamiltonian_ok 2 1 chain2"
  by (simp add: hamiltonian_ok_def chain2_def sites_def degree_def slot_def INT_MAX_def
      lessThan_Suc numeral_2_eq_2)

lemma chain2_xx_ok: "xx_ok 1 chain2"
  by (simp add: xx_ok_def chain2_def)

lemma chain2_vectors: "vector_ok chain2 vec_a" "vector_ok chain2 vec_b" "vector_ok chain2 vec_0"
  by (simp_all add: vector_ok_def chain2_def sites_def vec_a_def vec_b_def vec_0_def)

section \<open>Operator application (C2)\<close>

text \<open>
  Claim C2. On a well-formed lattice with nonzero \<open>energy_max\<close>, \<open>Hamiltonian::apply\<close>
  returns, and at every site \<open>i\<close> the output amplitude is
  \<open>(potential[i] * input[i] + \<Sum>_{k < neighbor_number[i]} hopping[k*N+i] * input[neighbor_list[k*N+i]]) / energy_max\<close>
  with a complex product per edge and the edge tables read at \<open>k * N + i\<close>. The output at
  site \<open>i\<close> depends on nothing else: any other input that agrees with this one at the
  site and at its neighbours gives the same amplitude there, whatever the output buffer
  held before.
\<close>

theorem apply_site_formula:
  assumes ok: "hamiltonian_ok BLOCK_SIZE max_neighbor H" and e: "energy_max H \<noteq> 0"
    and x: "vector_ok H input" and out: "vector_ok H output"
  shows "\<exists>out. Hamiltonian_apply BLOCK_SIZE H input output = Some out \<and> vector_ok H out \<and>
    (\<forall>i<sites H.
       amp out i =
         (of_real (potential H ! i) * amp input i
          + (\<Sum>k<degree H i.
               Complex (hopping_real H ! (k * sites H + i)) (hopping_imag H ! (k * sites H + i))
               * amp input (nat (neighbor_list H ! (k * sites H + i)))))
         / of_real (energy_max H) \<and>
       (\<forall>input' output'. vector_ok H input' \<and> vector_ok H output' \<and>
          amp input' i = amp input i \<and>
          (\<forall>k<degree H i. amp input' (nat (neighbor_list H ! (k * sites H + i)))
                          = amp input (nat (neighbor_list H ! (k * sites H + i)))) \<longrightarrow>
          (\<exists>out'. Hamiltonian_apply BLOCK_SIZE H input' output' = Some out' \<and>
             amp out' i = amp out i)))"
proof (intro exI conjI allI impI)
  show "Hamiltonian_apply BLOCK_SIZE H input output =
     Some \<lparr>real_part = overwrite (sites H) (\<lambda>i. Re (apply_site H input i)) (real_part output),
           imag_part = overwrite (sites H) (\<lambda>i. Im (apply_site H input i)) (imag_part output)\<rparr>"
    by (rule apply_closed_form [OF ok x out])
  show "vector_ok H \<lparr>real_part = overwrite (sites H) (\<lambda>i. Re (apply_site H input i)) (real_part output),
           imag_part = overwrite (sites H) (\<lambda>i. Im (apply_site H input i)) (imag_part output)\<rparr>"
    by (rule vector_ok_overwrite [OF out])
next
  fix i assume i: "i < sites H"
  show "amp \<lparr>real_part = overwrite (sites H) (\<lambda>i. Re (apply_site H input i)) (real_part output),
           imag_part = overwrite (sites H) (\<lambda>i. Im (apply_site H input i)) (imag_part output)\<rparr> i =
         (of_real (potential H ! i) * amp input i
          + (\<Sum>k<degree H i.
               Complex (hopping_real H ! (k * sites H + i)) (hopping_imag H ! (k * sites H + i))
               * amp input (nat (neighbor_list H ! (k * sites H + i)))))
         / of_real (energy_max H)"
    by (subst amp_overwrite [OF i out, where f = "apply_site H input"])
      (simp add: apply_site_def hopping_def neighbor_def slot_def)
next
  fix i input' output'
  assume i: "i < sites H"
    and h: "vector_ok H input' \<and> vector_ok H output' \<and>
          amp input' i = amp input i \<and>
          (\<forall>k<degree H i. amp input' (nat (neighbor_list H ! (k * sites H + i)))
                          = amp input (nat (neighbor_list H ! (k * sites H + i))))"
  then have same: "apply_site H input' i = apply_site H input i"
    by (simp add: apply_site_def neighbor_def slot_def)
  from h have x': "vector_ok H input'" and out': "vector_ok H output'"
    by simp_all
  show "Hamiltonian_apply BLOCK_SIZE H input' output' =
      Some \<lparr>real_part = overwrite (sites H) (\<lambda>i. Re (apply_site H input' i)) (real_part output'),
           imag_part = overwrite (sites H) (\<lambda>i. Im (apply_site H input' i)) (imag_part output')\<rparr>"
    by (rule apply_closed_form [OF ok x' out'])
  show "amp \<lparr>real_part = overwrite (sites H) (\<lambda>i. Re (apply_site H input' i)) (real_part output'),
           imag_part = overwrite (sites H) (\<lambda>i. Im (apply_site H input' i)) (imag_part output')\<rparr> i
      = amp \<lparr>real_part = overwrite (sites H) (\<lambda>i. Re (apply_site H input i)) (real_part output),
           imag_part = overwrite (sites H) (\<lambda>i. Im (apply_site H input i)) (imag_part output)\<rparr> i"
    by (simp only: amp_overwrite [OF i out, where f = "apply_site H input"]
        amp_overwrite [OF i out', where f = "apply_site H input'"] same)
qed


theorem apply_site_formula_witness:
  "hamiltonian_ok 2 1 chain2 \<and> energy_max chain2 \<noteq> 0 \<and> vector_ok chain2 vec_a \<and>
   vector_ok chain2 vec_0 \<and>
   (\<exists>out. Hamiltonian_apply 2 chain2 vec_a vec_0 = Some out \<and>
      amp out 0 = Complex (3 / 2) (5 / 2) \<and> amp out 1 = Complex (11 / 2) (3 / 2))"
proof -
  have e: "energy_max chain2 \<noteq> 0"
    by (simp add: chain2_def)
  from apply_site_formula [OF chain2_ok e chain2_vectors(1) chain2_vectors(3)]
  obtain out where run: "Hamiltonian_apply 2 chain2 vec_a vec_0 = Some out"
    and val: "\<And>i. i < sites chain2 \<Longrightarrow> amp out i =
         (of_real (potential chain2 ! i) * amp vec_a i
          + (\<Sum>k<degree chain2 i.
               Complex (hopping_real chain2 ! (k * sites chain2 + i))
                 (hopping_imag chain2 ! (k * sites chain2 + i))
               * amp vec_a (nat (neighbor_list chain2 ! (k * sites chain2 + i)))))
         / of_real (energy_max chain2)"
    by blast
  have "amp out 0 = Complex (3 / 2) (5 / 2)"
    by (subst val) (simp_all add: chain2_def sites_def degree_def vec_a_def amp_def complex_eq_iff)
  moreover have "amp out 1 = Complex (11 / 2) (3 / 2)"
    by (subst val) (simp_all add: chain2_def sites_def degree_def vec_a_def amp_def complex_eq_iff)
  ultimately show ?thesis
    using chain2_ok e chain2_vectors run by blast
qed

lemma edge_sum_explicit:
  "edge_sum H x i =
     (\<Sum>k<degree H i.
        Complex (hopping_real H ! (k * sites H + i)) (hopping_imag H ! (k * sites H + i))
        * amp x (nat (neighbor_list H ! (k * sites H + i)))
        * of_real (xx H ! (k * sites H + i)))"
  by (simp add: edge_sum_def hopping_def neighbor_def edge_scalar_def slot_def)

lemma degree_0: "neighbor_number H ! i = 0 \<Longrightarrow> degree H i = 0"
  by (simp add: degree_def)

lemma channels_overwrite:
  assumes "i < sites H" "vector_ok H out"
  shows "real_part \<lparr>real_part = overwrite (sites H) f (real_part out),
                    imag_part = overwrite (sites H) g (imag_part out)\<rparr> ! i = f i"
    and "imag_part \<lparr>real_part = overwrite (sites H) f (real_part out),
                    imag_part = overwrite (sites H) g (imag_part out)\<rparr> ! i = g i"
  using assms by (simp_all add: nth_overwrite vector_ok_def)

section \<open>Commutator application (C5)\<close>

text \<open>
  Claim C5. On a well-formed lattice with nonzero \<open>energy_max\<close>,
  \<open>Hamiltonian::apply_commutator\<close> returns, and at every site \<open>i\<close> the output amplitude is
  \<open>-(\<Sum>_{k < neighbor_number[i]} hopping[k*N+i] * input[neighbor_list[k*N+i]] * xx[k*N+i]) / energy_max\<close>.
  A site without neighbours gets exactly zero in both channels, and the onsite potential
  contributes nothing: with any other potential table the operation returns the same vector.
\<close>

theorem apply_commutator_site_formula:
  assumes ok: "hamiltonian_ok BLOCK_SIZE max_neighbor H" and xs: "xx_ok max_neighbor H"
    and e: "energy_max H \<noteq> 0"
    and x: "vector_ok H input" and out: "vector_ok H output"
  shows "\<exists>out. Hamiltonian_apply_commutator BLOCK_SIZE H input output = Some out \<and>
    vector_ok H out \<and>
    (\<forall>i<sites H.
       amp out i =
         - (\<Sum>k<degree H i.
              Complex (hopping_real H ! (k * sites H + i)) (hopping_imag H ! (k * sites H + i))
              * amp input (nat (neighbor_list H ! (k * sites H + i)))
              * of_real (xx H ! (k * sites H + i)))
         / of_real (energy_max H) \<and>
       (neighbor_number H ! i = 0 \<longrightarrow> real_part out ! i = 0 \<and> imag_part out ! i = 0)) \<and>
    (\<forall>p. Hamiltonian_apply_commutator BLOCK_SIZE (H\<lparr>potential := p\<rparr>) input output = Some out)"
proof -
  define res where "res =
    \<lparr>real_part = overwrite (sites H) (\<lambda>i. Re (commutator_site H input i)) (real_part output),
     imag_part = overwrite (sites H) (\<lambda>i. Im (commutator_site H input i)) (imag_part output)\<rparr>"
  have run: "Hamiltonian_apply_commutator BLOCK_SIZE H input output = Some res"
    unfolding res_def by (rule commutator_closed_form [OF ok xs x out])
  have okv: "vector_ok H res"
    unfolding res_def by (rule vector_ok_overwrite [OF out])
  have val: "amp res i = commutator_site H input i" if "i < sites H" for i
    unfolding res_def by (rule amp_overwrite [OF that out])
  have formula: "amp res i =
         - (\<Sum>k<degree H i.
              Complex (hopping_real H ! (k * sites H + i)) (hopping_imag H ! (k * sites H + i))
              * amp input (nat (neighbor_list H ! (k * sites H + i)))
              * of_real (xx H ! (k * sites H + i)))
         / of_real (energy_max H)" if "i < sites H" for i
    by (simp only: val [OF that] commutator_site_def edge_sum_explicit)
  have zero: "real_part res ! i = 0 \<and> imag_part res ! i = 0"
    if "i < sites H" "neighbor_number H ! i = 0" for i
    unfolding res_def channels_overwrite [OF that(1) out]
    by (simp add: commutator_site_def edge_sum_def degree_0 [OF that(2)])
  have pot: "Hamiltonian_apply_commutator BLOCK_SIZE (H\<lparr>potential := p\<rparr>) input output = Some res" for p
    using run by (simp add: Hamiltonian_apply_commutator_def)
  show ?thesis
    by (rule exI [of _ res], intro conjI allI impI run okv formula pot) (simp_all add: zero)
qed

theorem apply_commutator_site_formula_witness:
  "hamiltonian_ok 2 1 chain2 \<and> xx_ok 1 chain2 \<and> energy_max chain2 \<noteq> 0 \<and>
   vector_ok chain2 vec_a \<and> vector_ok chain2 vec_0 \<and>
   (\<exists>out. Hamiltonian_apply_commutator 2 chain2 vec_a vec_0 = Some out \<and>
      amp out 0 = Complex 0 (- (5 / 2)) \<and> amp out 1 = Complex (1 / 2) (- 1))"
proof -
  have e: "energy_max chain2 \<noteq> 0"
    by (simp add: chain2_def)
  from apply_commutator_site_formula
    [OF chain2_ok chain2_xx_ok e chain2_vectors(1) chain2_vectors(3)]
  obtain out where run: "Hamiltonian_apply_commutator 2 chain2 vec_a vec_0 = Some out"
    and val: "\<And>i. i < sites chain2 \<Longrightarrow> amp out i =
         - (\<Sum>k<degree chain2 i.
              Complex (hopping_real chain2 ! (k * sites chain2 + i))
                (hopping_imag chain2 ! (k * sites chain2 + i))
              * amp vec_a (nat (neighbor_list chain2 ! (k * sites chain2 + i)))
              * of_real (xx chain2 ! (k * sites chain2 + i)))
         / of_real (energy_max chain2)"
    by blast
  have "amp out 0 = Complex 0 (- (5 / 2))"
    by (subst val) (simp_all add: chain2_def sites_def degree_def vec_a_def amp_def complex_eq_iff)
  moreover have "amp out 1 = Complex (1 / 2) (- 1)"
    by (subst val) (simp_all add: chain2_def sites_def degree_def vec_a_def amp_def complex_eq_iff)
  ultimately show ?thesis
    using chain2_ok chain2_xx_ok e chain2_vectors run by blast
qed

section \<open>Current application (C6)\<close>

text \<open>
  Claim C6. On a well-formed lattice \<open>Hamiltonian::apply_current\<close> returns; with
  \<open>S_i = \<Sum>_{k < neighbor_number[i]} hopping[k*N+i] * input[neighbor_list[k*N+i]] * xx[k*N+i]\<close>
  the real output channel at site \<open>i\<close> is the imaginary part of \<open>S_i\<close> and the imaginary
  output channel is the negated real part of \<open>S_i\<close>. Nothing is divided by \<open>energy_max\<close>:
  with any other value of \<open>energy_max\<close> the operation returns the same vector.
\<close>

theorem apply_current_site_formula:
  assumes ok: "hamiltonian_ok BLOCK_SIZE max_neighbor H" and xs: "xx_ok max_neighbor H"
    and x: "vector_ok H input" and out: "vector_ok H output"
  shows "\<exists>out. Hamiltonian_apply_current BLOCK_SIZE H input output = Some out \<and>
    vector_ok H out \<and>
    (\<forall>i<sites H.
       real_part out ! i =
         Im (\<Sum>k<degree H i.
              Complex (hopping_real H ! (k * sites H + i)) (hopping_imag H ! (k * sites H + i))
              * amp input (nat (neighbor_list H ! (k * sites H + i)))
              * of_real (xx H ! (k * sites H + i))) \<and>
       imag_part out ! i =
         - Re (\<Sum>k<degree H i.
              Complex (hopping_real H ! (k * sites H + i)) (hopping_imag H ! (k * sites H + i))
              * amp input (nat (neighbor_list H ! (k * sites H + i)))
              * of_real (xx H ! (k * sites H + i)))) \<and>
    (\<forall>e. Hamiltonian_apply_current BLOCK_SIZE (H\<lparr>energy_max := e\<rparr>) input output = Some out)"
proof -
  define res where "res =
    \<lparr>real_part = overwrite (sites H) (\<lambda>i. Im (edge_sum H input i)) (real_part output),
     imag_part = overwrite (sites H) (\<lambda>i. - Re (edge_sum H input i)) (imag_part output)\<rparr>"
  have run: "Hamiltonian_apply_current BLOCK_SIZE H input output = Some res"
    unfolding res_def by (rule current_closed_form [OF ok xs x out])
  have okv: "vector_ok H res"
    unfolding res_def by (rule vector_ok_overwrite [OF out])
  have re: "real_part res ! i = Im (edge_sum H input i)"
    and im: "imag_part res ! i = - Re (edge_sum H input i)" if "i < sites H" for i
    unfolding res_def by (rule channels_overwrite [OF that out])+
  have em: "Hamiltonian_apply_current BLOCK_SIZE (H\<lparr>energy_max := e\<rparr>) input output = Some res" for e
    using run by (simp add: Hamiltonian_apply_current_def)
  show ?thesis
    by (rule exI [of _ res], intro conjI allI impI run okv em)
      (simp_all only: re im edge_sum_explicit)
qed

theorem apply_current_site_formula_witness:
  "hamiltonian_ok 2 1 chain2 \<and> xx_ok 1 chain2 \<and>
   vector_ok chain2 vec_a \<and> vector_ok chain2 vec_0 \<and>
   (\<exists>out. Hamiltonian_apply_current 2 chain2 vec_a vec_0 = Some out \<and>
      real_part out ! 0 = 5 \<and> imag_part out ! 0 = 0 \<and>
      real_part out ! 1 = 2 \<and> imag_part out ! 1 = 1)"
proof -
  from apply_current_site_formula
    [OF chain2_ok chain2_xx_ok chain2_vectors(1) chain2_vectors(3)]
  obtain out where run: "Hamiltonian_apply_current 2 chain2 vec_a vec_0 = Some out"
    and re: "\<And>i. i < sites chain2 \<Longrightarrow> real_part out ! i =
         Im (\<Sum>k<degree chain2 i.
              Complex (hopping_real chain2 ! (k * sites chain2 + i))
                (hopping_imag chain2 ! (k * sites chain2 + i))
              * amp vec_a (nat (neighbor_list chain2 ! (k * sites chain2 + i)))
              * of_real (xx chain2 ! (k * sites chain2 + i)))"
    and im: "\<And>i. i < sites chain2 \<Longrightarrow> imag_part out ! i =
         - Re (\<Sum>k<degree chain2 i.
              Complex (hopping_real chain2 ! (k * sites chain2 + i))
                (hopping_imag chain2 ! (k * sites chain2 + i))
              * amp vec_a (nat (neighbor_list chain2 ! (k * sites chain2 + i)))
              * of_real (xx chain2 ! (k * sites chain2 + i)))"
    by blast
  have "real_part out ! 0 = 5" "real_part out ! 1 = 2"
    by (subst re, simp_all add: chain2_def sites_def degree_def vec_a_def amp_def)+
  moreover have "imag_part out ! 0 = 0" "imag_part out ! 1 = 1"
    by (subst im, simp_all add: chain2_def sites_def degree_def vec_a_def amp_def)+
  ultimately show ?thesis
    using chain2_ok chain2_xx_ok chain2_vectors run by blast
qed

section \<open>Current and commutator (C7)\<close>

text \<open>
  Claim C7. On a well-formed lattice with nonzero \<open>energy_max\<close> and for the same input
  \<open>x\<close>, at every site \<open>apply_current(x)\<close> is \<open>energy_max\<close> times the 90-degree rotation of
  \<open>-apply_commutator(x)\<close>, exactly over the reals.
\<close>

theorem current_commutator_identity:
  assumes ok: "hamiltonian_ok BLOCK_SIZE max_neighbor H" and xs: "xx_ok max_neighbor H"
    and e: "energy_max H \<noteq> 0"
    and x: "vector_ok H x" and out1: "vector_ok H output_1" and out2: "vector_ok H output_2"
  shows "\<exists>cur com. Hamiltonian_apply_current BLOCK_SIZE H x output_1 = Some cur \<and>
    Hamiltonian_apply_commutator BLOCK_SIZE H x output_2 = Some com \<and>
    (\<forall>i<sites H. amp cur i = of_real (energy_max H) * rot90 (- amp com i))"
proof -
  define cur where "cur =
    \<lparr>real_part = overwrite (sites H) (\<lambda>i. Im (edge_sum H x i)) (real_part output_1),
     imag_part = overwrite (sites H) (\<lambda>i. - Re (edge_sum H x i)) (imag_part output_1)\<rparr>"
  define com where "com =
    \<lparr>real_part = overwrite (sites H) (\<lambda>i. Re (commutator_site H x i)) (real_part output_2),
     imag_part = overwrite (sites H) (\<lambda>i. Im (commutator_site H x i)) (imag_part output_2)\<rparr>"
  have cur: "Hamiltonian_apply_current BLOCK_SIZE H x output_1 = Some cur"
    unfolding cur_def by (rule current_closed_form [OF ok xs x out1])
  have com: "Hamiltonian_apply_commutator BLOCK_SIZE H x output_2 = Some com"
    unfolding com_def by (rule commutator_closed_form [OF ok xs x out2])
  have "amp cur i = of_real (energy_max H) * rot90 (- amp com i)" if i: "i < sites H" for i
  proof -
    have c: "amp cur i = Complex (Im (edge_sum H x i)) (- Re (edge_sum H x i))"
      unfolding cur_def amp_def by (simp only: channels_overwrite [OF i out1])
    have m: "amp com i = commutator_site H x i"
      unfolding com_def by (rule amp_overwrite [OF i out2])
    show ?thesis
      unfolding c m using e
      by (simp add: commutator_site_def rot90_def complex_eq_iff)
  qed
  then show ?thesis
    using cur com by blast
qed

theorem current_commutator_identity_witness:
  "hamiltonian_ok 2 1 chain2 \<and> xx_ok 1 chain2 \<and> energy_max chain2 \<noteq> 0 \<and>
   vector_ok chain2 vec_a \<and> vector_ok chain2 vec_0 \<and> vector_ok chain2 vec_b \<and>
   (\<exists>cur com. Hamiltonian_apply_current 2 chain2 vec_a vec_0 = Some cur \<and>
      Hamiltonian_apply_commutator 2 chain2 vec_a vec_b = Some com \<and>
      amp cur 0 = 2 * rot90 (- amp com 0) \<and> amp cur 1 = 2 * rot90 (- amp com 1))"
proof -
  have e: "energy_max chain2 \<noteq> 0" and e2: "energy_max chain2 = 2" and n: "sites chain2 = 2"
    by (simp_all add: chain2_def sites_def)
  from current_commutator_identity
    [OF chain2_ok chain2_xx_ok e chain2_vectors(1) chain2_vectors(3) chain2_vectors(2)]
  obtain cur com where run: "Hamiltonian_apply_current 2 chain2 vec_a vec_0 = Some cur"
      "Hamiltonian_apply_commutator 2 chain2 vec_a vec_b = Some com"
    and val: "\<And>i. i < sites chain2 \<Longrightarrow>
      amp cur i = of_real (energy_max chain2) * rot90 (- amp com i)"
    by blast
  have "amp cur 0 = 2 * rot90 (- amp com 0)" "amp cur 1 = 2 * rot90 (- amp com 1)"
    using val [of 0] val [of 1] by (simp_all add: e2 n)
  then show ?thesis
    using chain2_ok chain2_xx_ok e chain2_vectors run by blast
qed

section \<open>Chebyshev seed step (C9)\<close>

text \<open>
  Claim C9. On a well-formed lattice, for all real \<open>bessel_0\<close>, \<open>bessel_1\<close> and every integer
  \<open>direction\<close>, \<open>Hamiltonian::chebyshev_01\<close> returns and overwrites the accumulator at every
  site \<open>i\<close> with real channel \<open>bessel_0 * state_0.real[i] + direction * bessel_1 * state_1.imag[i]\<close>
  and imaginary channel \<open>bessel_0 * state_0.imag[i] - direction * bessel_1 * state_1.real[i]\<close>,
  that is \<open>bessel_0 * state_0 + direction * bessel_1 * (-i) * state_1\<close>. The previous
  contents of the accumulator do not matter (any other accumulator gives the same
  amplitudes), and no operator data is read: an operator with the same site count and
  grid size and any other tables and spectral bound gives the same result.
\<close>

theorem chebyshev_01_seed:
  assumes ok: "hamiltonian_ok BLOCK_SIZE max_neighbor H"
    and s0: "vector_ok H state_0" and s1: "vector_ok H state_1" and st: "vector_ok H state"
  shows "\<exists>acc. Hamiltonian_chebyshev_01 BLOCK_SIZE H state_0 state_1 state
        bessel_0 bessel_1 direction = Some acc \<and>
    vector_ok H acc \<and>
    (\<forall>i<sites H.
       real_part acc ! i = bessel_0 * real_part state_0 ! i
                            + of_int direction * bessel_1 * imag_part state_1 ! i \<and>
       imag_part acc ! i = bessel_0 * imag_part state_0 ! i
                            - of_int direction * bessel_1 * real_part state_1 ! i \<and>
       amp acc i = of_real bessel_0 * amp state_0 i
                    + of_int direction * of_real bessel_1 * (- \<i>) * amp state_1 i) \<and>
    (\<forall>state'. vector_ok H state' \<longrightarrow>
       (\<exists>acc'. Hamiltonian_chebyshev_01 BLOCK_SIZE H state_0 state_1 state'
            bessel_0 bessel_1 direction = Some acc' \<and>
          (\<forall>i<sites H. amp acc' i = amp acc i))) \<and>
    (\<forall>H'. n_atoms H' = n_atoms H \<and> grid_size H' = grid_size H \<longrightarrow>
       Hamiltonian_chebyshev_01 BLOCK_SIZE H' state_0 state_1 state
         bessel_0 bessel_1 direction = Some acc)"
proof -
  define vr where "vr = (\<lambda>i. bessel_0 * real_part state_0 ! i
      + bessel_1 * of_int direction * imag_part state_1 ! i)"
  define vi where "vi = (\<lambda>i. bessel_0 * imag_part state_0 ! i
      - bessel_1 * of_int direction * real_part state_1 ! i)"
  define res where "res = (\<lambda>st :: Vector. \<lparr>real_part = overwrite (sites H) vr (real_part st),
                    imag_part = overwrite (sites H) vi (imag_part st)\<rparr>)"
  have run: "Hamiltonian_chebyshev_01 BLOCK_SIZE H state_0 state_1 st'
        bessel_0 bessel_1 direction = Some (res st')" if "vector_ok H st'" for st'
    unfolding res_def vr_def vi_def by (rule chebyshev_01_closed_form [OF ok s0 s1 that])
  have okv: "vector_ok H (res state)"
    unfolding res_def by (rule vector_ok_overwrite [OF st])
  have ch: "real_part (res st') ! i = vr i" "imag_part (res st') ! i = vi i"
    if "i < sites H" "vector_ok H st'" for i st'
    unfolding res_def by (rule channels_overwrite [OF that])+
  have val: "real_part (res state) ! i = bessel_0 * real_part state_0 ! i
                            + of_int direction * bessel_1 * imag_part state_1 ! i \<and>
       imag_part (res state) ! i = bessel_0 * imag_part state_0 ! i
                            - of_int direction * bessel_1 * real_part state_1 ! i \<and>
       amp (res state) i = of_real bessel_0 * amp state_0 i
                    + of_int direction * of_real bessel_1 * (- \<i>) * amp state_1 i"
    if i: "i < sites H" for i
    by (simp add: amp_def ch [OF i st] vr_def vi_def complex_eq_iff mult.commute)
  have same: "amp (res state') i = amp (res state) i"
    if "vector_ok H state'" "i < sites H" for state' i
    by (simp add: amp_def ch [OF that(2) that(1)] ch [OF that(2) st])
  have frame: "Hamiltonian_chebyshev_01 BLOCK_SIZE H' state_0 state_1 state
         bessel_0 bessel_1 direction = Some (res state)"
    if "n_atoms H' = n_atoms H \<and> grid_size H' = grid_size H" for H'
    using run [OF st] that by (simp add: Hamiltonian_chebyshev_01_def)
  show ?thesis
  proof (rule exI [of _ "res state"], intro conjI allI impI)
    show "Hamiltonian_chebyshev_01 BLOCK_SIZE H state_0 state_1 state
        bessel_0 bessel_1 direction = Some (res state)"
      by (rule run [OF st])
    show "vector_ok H (res state)"
      by (rule okv)
    show "\<exists>acc'. Hamiltonian_chebyshev_01 BLOCK_SIZE H state_0 state_1 state'
            bessel_0 bessel_1 direction = Some acc' \<and>
          (\<forall>i<sites H. amp acc' i = amp (res state) i)" if "vector_ok H state'" for state'
      using run [OF that] same [OF that] by blast
  qed (simp_all add: val frame)
qed

theorem chebyshev_01_seed_witness:
  "hamiltonian_ok 2 1 chain2 \<and> vector_ok chain2 vec_a \<and> vector_ok chain2 vec_b \<and>
   vector_ok chain2 vec_0 \<and>
   (\<exists>acc. Hamiltonian_chebyshev_01 2 chain2 vec_a vec_b vec_0 2 3 (- 1) = Some acc \<and>
      real_part acc ! 0 = 5 \<and> imag_part acc ! 0 = 0 \<and>
      real_part acc ! 1 = - 2 \<and> imag_part acc ! 1 = 14)"
proof -
  from chebyshev_01_seed
    [OF chain2_ok chain2_vectors(1) chain2_vectors(2) chain2_vectors(3), of 2 3 "- 1"]
  obtain acc where run: "Hamiltonian_chebyshev_01 2 chain2 vec_a vec_b vec_0 2 3 (- 1) = Some acc"
    and re: "\<And>i. i < sites chain2 \<Longrightarrow> real_part acc ! i =
        2 * real_part vec_a ! i + of_int (- 1) * 3 * imag_part vec_b ! i"
    and im: "\<And>i. i < sites chain2 \<Longrightarrow> imag_part acc ! i =
        2 * imag_part vec_a ! i - of_int (- 1) * 3 * real_part vec_b ! i"
    by blast
  have "real_part acc ! 0 = 5" "real_part acc ! 1 = - 2"
    by (subst re, simp_all add: chain2_def sites_def vec_a_def vec_b_def)+
  moreover have "imag_part acc ! 0 = 0" "imag_part acc ! 1 = 14"
    by (subst im, simp_all add: chain2_def sites_def vec_a_def vec_b_def)+
  ultimately show ?thesis
    using chain2_ok chain2_vectors run by blast
qed

lemma Re_amp: "Re (amp v i) = real_part v ! i"
  and Im_amp: "Im (amp v i) = imag_part v ! i"
  by (simp_all add: amp_def)

lemma overwrite_same:
  assumes "\<And>j. j < length xs \<Longrightarrow> j < N \<Longrightarrow> v j = xs ! j"
  shows "overwrite N v xs = xs"
  by (rule nth_equalityI) (simp_all add: nth_overwrite assms)

lemma route_unrecognised:
  "label \<notin> {1, 2, 3, 4} \<Longrightarrow> route label b z a = a"
  by (simp add: route_def)

lemma route_channels:
  assumes "amp acc i = route label b z (amp state i)"
  shows "label = 1 \<longrightarrow> amp acc i = amp state i + of_real b * z"
    and "label = 2 \<longrightarrow> amp acc i = amp state i - of_real b * z"
    and "label = 3 \<longrightarrow> amp acc i = amp state i + rot90 (of_real b * z) \<and>
           real_part acc ! i = real_part state ! i + b * Im z \<and>
           imag_part acc ! i = imag_part state ! i - b * Re z"
    and "label = 4 \<longrightarrow> amp acc i = amp state i - rot90 (of_real b * z) \<and>
           real_part acc ! i = real_part state ! i - b * Im z \<and>
           imag_part acc ! i = imag_part state ! i + b * Re z"
  using assms by (auto simp: route_def rot90_def amp_def complex_eq_iff)

lemma unrouted_vector:
  assumes "label \<notin> {1, 2, 3, 4}"
  shows "\<lparr>real_part = overwrite N (\<lambda>i. Re (route label b (z i) (amp state i))) (real_part state),
          imag_part = overwrite N (\<lambda>i. Im (route label b (z i) (amp state i))) (imag_part state)\<rparr>
         = (state :: Vector)"
proof -
  have "overwrite N (\<lambda>i. Re (route label b (z i) (amp state i))) (real_part state) = real_part state"
    by (rule overwrite_same) (simp add: route_unrecognised [OF assms] Re_amp)
  moreover have "overwrite N (\<lambda>i. Im (route label b (z i) (amp state i))) (imag_part state) = imag_part state"
    by (rule overwrite_same) (simp add: route_unrecognised [OF assms] Im_amp)
  ultimately show ?thesis
    by simp
qed

lemma apply_amp:
  assumes "hamiltonian_ok B mx H" "vector_ok H x" "vector_ok H out"
    and "Hamiltonian_apply B H x out = Some v" and "i < sites H"
  shows "amp v i = apply_site H x i"
  using assms(4) unfolding apply_closed_form [OF assms(1-3)]
  by (auto simp: amp_overwrite [OF assms(5) assms(3), where f = "apply_site H x"])

lemma commutator_amp:
  assumes "hamiltonian_ok B mx H" "xx_ok mx H" "vector_ok H x" "vector_ok H out"
    and "Hamiltonian_apply_commutator B H x out = Some v" and "i < sites H"
  shows "amp v i = commutator_site H x i"
  using assms(5) unfolding commutator_closed_form [OF assms(1-4)]
  by (auto simp: amp_overwrite [OF assms(6) assms(4), where f = "commutator_site H x"])

lemma chain2_sites: "sites chain2 = 2"
  by (simp add: sites_def chain2_def)

lemma chain2_apply_site:
  "apply_site chain2 vec_a 0 = Complex (3 / 2) (5 / 2)"
  "apply_site chain2 vec_b 0 = Complex 0 (7 / 2)"
  by (simp_all add: apply_site_def chain2_def degree_def hopping_def neighbor_def slot_def
      sites_def vec_a_def vec_b_def amp_def complex_eq_iff)

lemma chain2_commutator_site:
  "commutator_site chain2 vec_b 0 = Complex 0 (- 5)"
  by (simp add: commutator_site_def edge_sum_def edge_scalar_def chain2_def degree_def
      hopping_def neighbor_def slot_def sites_def vec_b_def amp_def complex_eq_iff)

lemma chain2_amp_0:
  "amp vec_a 0 = Complex 1 0" "amp vec_b 0 = Complex 0 (- 1)"
  by (simp_all add: amp_def vec_a_def vec_b_def)

section \<open>Bulk Chebyshev step (C1)\<close>

text \<open>
  Claim C1. On a well-formed lattice, for every label in \<open>{1, 2, 3, 4}\<close> and every real
  \<open>bessel_m\<close>, \<open>Hamiltonian::chebyshev_2\<close> returns; at every site the new \<open>state_2\<close> is
  \<open>2 * apply(state_1) - state_0\<close>, where \<open>apply(state_1)\<close> is what \<open>Hamiltonian::apply\<close> returns
  on \<open>state_1\<close>, and the accumulator is updated by the phase-routed term: label 1 adds
  \<open>bessel_m * state_2\<close>, label 2 subtracts it, label 3 adds its 90-degree-rotated form (the
  real channel gains \<open>bessel_m * Im state_2\<close>, the imaginary channel loses
  \<open>bessel_m * Re state_2\<close>), label 4 subtracts the rotated form.
\<close>

theorem chebyshev_2_step:
  assumes ok: "hamiltonian_ok BLOCK_SIZE max_neighbor H"
    and lab: "label \<in> {1, 2, 3, 4}"
    and s0: "vector_ok H state_0" and s1: "vector_ok H state_1" and s2: "vector_ok H state_2"
    and st: "vector_ok H state" and w: "vector_ok H output"
  shows "\<exists>new_2 new_state applied.
    Hamiltonian_chebyshev_2 BLOCK_SIZE H state_0 state_1 state_2 state bessel_m label
      = Some (new_2, new_state) \<and>
    Hamiltonian_apply BLOCK_SIZE H state_1 output = Some applied \<and>
    vector_ok H new_2 \<and> vector_ok H new_state \<and>
    (\<forall>i<sites H.
       amp new_2 i = 2 * amp applied i - amp state_0 i \<and>
       (label = 1 \<longrightarrow> amp new_state i = amp state i + of_real bessel_m * amp new_2 i) \<and>
       (label = 2 \<longrightarrow> amp new_state i = amp state i - of_real bessel_m * amp new_2 i) \<and>
       (label = 3 \<longrightarrow> amp new_state i = amp state i + rot90 (of_real bessel_m * amp new_2 i) \<and>
          real_part new_state ! i = real_part state ! i + bessel_m * imag_part new_2 ! i \<and>
          imag_part new_state ! i = imag_part state ! i - bessel_m * real_part new_2 ! i) \<and>
       (label = 4 \<longrightarrow> amp new_state i = amp state i - rot90 (of_real bessel_m * amp new_2 i) \<and>
          real_part new_state ! i = real_part state ! i - bessel_m * imag_part new_2 ! i \<and>
          imag_part new_state ! i = imag_part state ! i + bessel_m * real_part new_2 ! i))"
proof -
  define r2 where "r2 =
    \<lparr>real_part = overwrite (sites H) (\<lambda>i. Re (recurrence_site H state_0 state_1 i)) (real_part state_2),
     imag_part = overwrite (sites H) (\<lambda>i. Im (recurrence_site H state_0 state_1 i)) (imag_part state_2)\<rparr>"
  define racc where "racc =
    \<lparr>real_part = overwrite (sites H)
       (\<lambda>i. Re (route label bessel_m (recurrence_site H state_0 state_1 i) (amp state i)))
       (real_part state),
     imag_part = overwrite (sites H)
       (\<lambda>i. Im (route label bessel_m (recurrence_site H state_0 state_1 i) (amp state i)))
       (imag_part state)\<rparr>"
  define h where "h =
    \<lparr>real_part = overwrite (sites H) (\<lambda>i. Re (apply_site H state_1 i)) (real_part output),
     imag_part = overwrite (sites H) (\<lambda>i. Im (apply_site H state_1 i)) (imag_part output)\<rparr>"
  have run: "Hamiltonian_chebyshev_2 BLOCK_SIZE H state_0 state_1 state_2 state bessel_m label
      = Some (r2, racc)"
    unfolding r2_def racc_def by (rule chebyshev_2_closed_form [OF ok s0 s1 s2 st])
  have app: "Hamiltonian_apply BLOCK_SIZE H state_1 output = Some h"
    unfolding h_def by (rule apply_closed_form [OF ok s1 w])
  have okv: "vector_ok H r2" "vector_ok H racc"
    unfolding r2_def racc_def by (rule vector_ok_overwrite [OF s2], rule vector_ok_overwrite [OF st])
  have site: "amp r2 i = 2 * amp h i - amp state_0 i"
    and acc: "amp racc i = route label bessel_m (amp r2 i) (amp state i)"
    if i: "i < sites H" for i
  proof -
    have a: "amp r2 i = recurrence_site H state_0 state_1 i"
      unfolding r2_def by (rule amp_overwrite [OF i s2])
    have b: "amp h i = apply_site H state_1 i"
      unfolding h_def by (rule amp_overwrite [OF i w])
    show "amp r2 i = 2 * amp h i - amp state_0 i"
      by (simp only: a b recurrence_site_def)
    show "amp racc i = route label bessel_m (amp r2 i) (amp state i)"
      unfolding racc_def a
      by (rule amp_overwrite [OF i st,
            where f = "\<lambda>i. route label bessel_m (recurrence_site H state_0 state_1 i) (amp state i)"])
  qed
  show ?thesis
  proof (rule exI [of _ r2], rule exI [of _ racc], rule exI [of _ h],
      intro conjI allI impI run app okv)
    fix i assume i: "i < sites H"
    note rc = route_channels [OF acc [OF i], unfolded Re_amp Im_amp]
    show "amp r2 i = 2 * amp h i - amp state_0 i"
      by (rule site [OF i])
    show "label = 1 \<Longrightarrow> amp racc i = amp state i + of_real bessel_m * amp r2 i"
      "label = 2 \<Longrightarrow> amp racc i = amp state i - of_real bessel_m * amp r2 i"
      "label = 3 \<Longrightarrow> amp racc i = amp state i + rot90 (of_real bessel_m * amp r2 i)"
      "label = 3 \<Longrightarrow> real_part racc ! i = real_part state ! i + bessel_m * imag_part r2 ! i"
      "label = 3 \<Longrightarrow> imag_part racc ! i = imag_part state ! i - bessel_m * real_part r2 ! i"
      "label = 4 \<Longrightarrow> amp racc i = amp state i - rot90 (of_real bessel_m * amp r2 i)"
      "label = 4 \<Longrightarrow> real_part racc ! i = real_part state ! i - bessel_m * imag_part r2 ! i"
      "label = 4 \<Longrightarrow> imag_part racc ! i = imag_part state ! i + bessel_m * real_part r2 ! i"
      using rc by simp_all
  qed
qed

theorem chebyshev_2_step_witness:
  "hamiltonian_ok 2 1 chain2 \<and> (3 :: int) \<in> {1, 2, 3, 4} \<and> vector_ok chain2 vec_a \<and>
   vector_ok chain2 vec_b \<and> vector_ok chain2 vec_0 \<and>
   (\<exists>new_2 new_state.
      Hamiltonian_chebyshev_2 2 chain2 vec_a vec_b vec_0 vec_a 3 3 = Some (new_2, new_state) \<and>
      amp new_2 0 = Complex (- 1) 7 \<and> amp new_state 0 = Complex 22 3)"
proof -
  have lab: "(3 :: int) \<in> {1, 2, 3, 4}"
    by simp
  from chebyshev_2_step [OF chain2_ok lab chain2_vectors(1) chain2_vectors(2)
      chain2_vectors(3) chain2_vectors(1) chain2_vectors(3), of 3]
  obtain new_2 new_state applied
    where run: "Hamiltonian_chebyshev_2 2 chain2 vec_a vec_b vec_0 vec_a 3 3 = Some (new_2, new_state)"
      and app: "Hamiltonian_apply 2 chain2 vec_b vec_0 = Some applied"
      and rec: "\<And>i. i < sites chain2 \<Longrightarrow> amp new_2 i = 2 * amp applied i - amp vec_a i"
      and acc: "\<And>i. i < sites chain2 \<Longrightarrow>
        amp new_state i = amp vec_a i + rot90 (of_real 3 * amp new_2 i)"
    by auto
  have a: "amp applied 0 = Complex 0 (7 / 2)"
    using apply_amp [OF chain2_ok chain2_vectors(2) chain2_vectors(3) app, of 0]
    by (simp add: chain2_sites chain2_apply_site)
  have n: "amp new_2 0 = Complex (- 1) 7"
    using rec [of 0] by (simp add: chain2_sites a chain2_amp_0 complex_eq_iff)
  have "amp new_state 0 = Complex 22 3"
    using acc [of 0] by (simp add: chain2_sites n chain2_amp_0 rot90_def complex_eq_iff)
  then show ?thesis
    using chain2_ok lab chain2_vectors run n by blast
qed

section \<open>Bare recursion (C3)\<close>

text \<open>
  Claim C3. On a well-formed lattice \<open>Hamiltonian::kernel_polynomial\<close> returns; at every
  site its \<open>state_2\<close> is \<open>2 * apply(state_1) - state_0\<close>, and it is the very vector that
  \<open>Hamiltonian::chebyshev_2\<close> returns as \<open>state_2\<close> on the same \<open>state_0\<close>, \<open>state_1\<close> and
  \<open>state_2\<close> buffer, for every accumulator, coefficient and label. The kernel is given
  no accumulator and its only stores are to \<open>g_state_2_real\<close> and \<open>g_state_2_imag\<close>, so
  the embedding returns the new \<open>state_2\<close> alone.
\<close>

theorem kernel_polynomial_recursion:
  assumes ok: "hamiltonian_ok BLOCK_SIZE max_neighbor H"
    and s0: "vector_ok H state_0" and s1: "vector_ok H state_1" and s2: "vector_ok H state_2"
    and w: "vector_ok H output"
  shows "\<exists>new_2 applied.
    Hamiltonian_kernel_polynomial BLOCK_SIZE H state_0 state_1 state_2 = Some new_2 \<and>
    Hamiltonian_apply BLOCK_SIZE H state_1 output = Some applied \<and>
    vector_ok H new_2 \<and>
    (\<forall>i<sites H. amp new_2 i = 2 * amp applied i - amp state_0 i) \<and>
    (\<forall>state bessel_m label. vector_ok H state \<longrightarrow>
       (\<exists>new_state.
          Hamiltonian_chebyshev_2 BLOCK_SIZE H state_0 state_1 state_2 state bessel_m label
            = Some (new_2, new_state)))"
proof -
  define r2 where "r2 =
    \<lparr>real_part = overwrite (sites H) (\<lambda>i. Re (recurrence_site H state_0 state_1 i)) (real_part state_2),
     imag_part = overwrite (sites H) (\<lambda>i. Im (recurrence_site H state_0 state_1 i)) (imag_part state_2)\<rparr>"
  define h where "h =
    \<lparr>real_part = overwrite (sites H) (\<lambda>i. Re (apply_site H state_1 i)) (real_part output),
     imag_part = overwrite (sites H) (\<lambda>i. Im (apply_site H state_1 i)) (imag_part output)\<rparr>"
  have run: "Hamiltonian_kernel_polynomial BLOCK_SIZE H state_0 state_1 state_2 = Some r2"
    unfolding r2_def by (rule kernel_polynomial_closed_form [OF ok s0 s1 s2])
  have app: "Hamiltonian_apply BLOCK_SIZE H state_1 output = Some h"
    unfolding h_def by (rule apply_closed_form [OF ok s1 w])
  have okv: "vector_ok H r2"
    unfolding r2_def by (rule vector_ok_overwrite [OF s2])
  have site: "amp r2 i = 2 * amp h i - amp state_0 i" if i: "i < sites H" for i
  proof -
    have a: "amp r2 i = recurrence_site H state_0 state_1 i"
      unfolding r2_def by (rule amp_overwrite [OF i s2])
    have b: "amp h i = apply_site H state_1 i"
      unfolding h_def by (rule amp_overwrite [OF i w])
    show ?thesis
      by (simp only: a b recurrence_site_def)
  qed
  have bulk: "\<exists>new_state.
      Hamiltonian_chebyshev_2 BLOCK_SIZE H state_0 state_1 state_2 state bessel_m label
        = Some (r2, new_state)" if "vector_ok H state" for state bessel_m label
    unfolding r2_def chebyshev_2_closed_form [OF ok s0 s1 s2 that] by blast
  show ?thesis
    by (rule exI [of _ r2], rule exI [of _ h], intro conjI allI impI run app okv site bulk)
qed

theorem kernel_polynomial_recursion_witness:
  "hamiltonian_ok 2 1 chain2 \<and> vector_ok chain2 vec_a \<and>
   vector_ok chain2 vec_b \<and> vector_ok chain2 vec_0 \<and>
   (\<exists>new_2 new_state.
      Hamiltonian_kernel_polynomial 2 chain2 vec_a vec_b vec_0 = Some new_2 \<and>
      amp new_2 0 = Complex (- 1) 7 \<and>
      Hamiltonian_chebyshev_2 2 chain2 vec_a vec_b vec_0 vec_a 3 3 = Some (new_2, new_state))"
proof -
  from kernel_polynomial_recursion [OF chain2_ok chain2_vectors(1) chain2_vectors(2)
      chain2_vectors(3) chain2_vectors(3)]
  obtain new_2 applied
    where run: "Hamiltonian_kernel_polynomial 2 chain2 vec_a vec_b vec_0 = Some new_2"
      and app: "Hamiltonian_apply 2 chain2 vec_b vec_0 = Some applied"
      and rec: "\<And>i. i < sites chain2 \<Longrightarrow> amp new_2 i = 2 * amp applied i - amp vec_a i"
      and bulk: "\<And>state bessel_m label. vector_ok chain2 state \<Longrightarrow>
        \<exists>new_state. Hamiltonian_chebyshev_2 2 chain2 vec_a vec_b vec_0 state bessel_m label
          = Some (new_2, new_state)"
    by blast
  have a: "amp applied 0 = Complex 0 (7 / 2)"
    using apply_amp [OF chain2_ok chain2_vectors(2) chain2_vectors(3) app, of 0]
    by (simp add: chain2_sites chain2_apply_site)
  have n: "amp new_2 0 = Complex (- 1) 7"
    using rec [of 0] by (simp add: chain2_sites a chain2_amp_0 complex_eq_iff)
  from bulk [OF chain2_vectors(1), of 3 3] obtain new_state
    where "Hamiltonian_chebyshev_2 2 chain2 vec_a vec_b vec_0 vec_a 3 3 = Some (new_2, new_state)"
    by blast
  then show ?thesis
    using chain2_ok chain2_vectors run n by blast
qed

section \<open>Shadow Chebyshev step (C4)\<close>

text \<open>
  Claim C4. On a well-formed lattice with nonzero \<open>energy_max\<close> and for every label in
  \<open>{1, 2, 3, 4}\<close>, \<open>Hamiltonian::chebyshev_2x\<close> returns; at every site the new \<open>state_2\<close> is
  \<open>2 * apply(state_1) - state_0\<close> (the same vector as the bulk step's), the new \<open>state_2x\<close>
  is \<open>2 * (apply(state_1x) + apply_commutator(state_1)) - state_0x\<close>, and the accumulator
  receives only the term \<open>bessel_m * state_2x\<close>, routed by the label as in the bulk step.
\<close>

theorem chebyshev_2x_step:
  assumes ok: "hamiltonian_ok BLOCK_SIZE max_neighbor H" and xs: "xx_ok max_neighbor H"
    and e: "energy_max H \<noteq> 0" and lab: "label \<in> {1, 2, 3, 4}"
    and s0: "vector_ok H state_0" and s0x: "vector_ok H state_0x"
    and s1: "vector_ok H state_1" and s1x: "vector_ok H state_1x"
    and s2: "vector_ok H state_2" and s2x: "vector_ok H state_2x"
    and st: "vector_ok H state" and w: "vector_ok H output"
  shows "\<exists>new_2 new_2x new_state applied applied_x commuted.
    Hamiltonian_chebyshev_2x BLOCK_SIZE H state_0 state_0x state_1 state_1x state_2 state_2x
      state bessel_m label = Some (new_2, new_2x, new_state) \<and>
    Hamiltonian_apply BLOCK_SIZE H state_1 output = Some applied \<and>
    Hamiltonian_apply BLOCK_SIZE H state_1x output = Some applied_x \<and>
    Hamiltonian_apply_commutator BLOCK_SIZE H state_1 output = Some commuted \<and>
    (\<exists>bulk_state.
       Hamiltonian_chebyshev_2 BLOCK_SIZE H state_0 state_1 state_2 state bessel_m label
         = Some (new_2, bulk_state)) \<and>
    (\<forall>i<sites H.
       amp new_2 i = 2 * amp applied i - amp state_0 i \<and>
       amp new_2x i = 2 * (amp applied_x i + amp commuted i) - amp state_0x i \<and>
       (label = 1 \<longrightarrow> amp new_state i = amp state i + of_real bessel_m * amp new_2x i) \<and>
       (label = 2 \<longrightarrow> amp new_state i = amp state i - of_real bessel_m * amp new_2x i) \<and>
       (label = 3 \<longrightarrow> amp new_state i = amp state i + rot90 (of_real bessel_m * amp new_2x i) \<and>
          real_part new_state ! i = real_part state ! i + bessel_m * imag_part new_2x ! i \<and>
          imag_part new_state ! i = imag_part state ! i - bessel_m * real_part new_2x ! i) \<and>
       (label = 4 \<longrightarrow> amp new_state i = amp state i - rot90 (of_real bessel_m * amp new_2x i) \<and>
          real_part new_state ! i = real_part state ! i - bessel_m * imag_part new_2x ! i \<and>
          imag_part new_state ! i = imag_part state ! i + bessel_m * real_part new_2x ! i))"
proof -
  define r2 where "r2 =
    \<lparr>real_part = overwrite (sites H) (\<lambda>i. Re (recurrence_site H state_0 state_1 i)) (real_part state_2),
     imag_part = overwrite (sites H) (\<lambda>i. Im (recurrence_site H state_0 state_1 i)) (imag_part state_2)\<rparr>"
  define r2x where "r2x =
    \<lparr>real_part = overwrite (sites H) (\<lambda>i. Re (shadow_site H state_0x state_1 state_1x i)) (real_part state_2x),
     imag_part = overwrite (sites H) (\<lambda>i. Im (shadow_site H state_0x state_1 state_1x i)) (imag_part state_2x)\<rparr>"
  define racc where "racc =
    \<lparr>real_part = overwrite (sites H)
       (\<lambda>i. Re (route label bessel_m (shadow_site H state_0x state_1 state_1x i) (amp state i)))
       (real_part state),
     imag_part = overwrite (sites H)
       (\<lambda>i. Im (route label bessel_m (shadow_site H state_0x state_1 state_1x i) (amp state i)))
       (imag_part state)\<rparr>"
  define h where "h =
    \<lparr>real_part = overwrite (sites H) (\<lambda>i. Re (apply_site H state_1 i)) (real_part output),
     imag_part = overwrite (sites H) (\<lambda>i. Im (apply_site H state_1 i)) (imag_part output)\<rparr>"
  define hx where "hx =
    \<lparr>real_part = overwrite (sites H) (\<lambda>i. Re (apply_site H state_1x i)) (real_part output),
     imag_part = overwrite (sites H) (\<lambda>i. Im (apply_site H state_1x i)) (imag_part output)\<rparr>"
  define c where "c =
    \<lparr>real_part = overwrite (sites H) (\<lambda>i. Re (commutator_site H state_1 i)) (real_part output),
     imag_part = overwrite (sites H) (\<lambda>i. Im (commutator_site H state_1 i)) (imag_part output)\<rparr>"
  have run: "Hamiltonian_chebyshev_2x BLOCK_SIZE H state_0 state_0x state_1 state_1x state_2 state_2x
      state bessel_m label = Some (r2, r2x, racc)"
    unfolding r2_def r2x_def racc_def
    by (rule chebyshev_2x_closed_form [OF ok xs s0 s0x s1 s1x s2 s2x st])
  have app: "Hamiltonian_apply BLOCK_SIZE H state_1 output = Some h"
    unfolding h_def by (rule apply_closed_form [OF ok s1 w])
  have appx: "Hamiltonian_apply BLOCK_SIZE H state_1x output = Some hx"
    unfolding hx_def by (rule apply_closed_form [OF ok s1x w])
  have com: "Hamiltonian_apply_commutator BLOCK_SIZE H state_1 output = Some c"
    unfolding c_def by (rule commutator_closed_form [OF ok xs s1 w])
  have bulk: "\<exists>bulk_state.
      Hamiltonian_chebyshev_2 BLOCK_SIZE H state_0 state_1 state_2 state bessel_m label
        = Some (r2, bulk_state)"
    unfolding r2_def chebyshev_2_closed_form [OF ok s0 s1 s2 st] by blast
  have site: "amp r2 i = 2 * amp h i - amp state_0 i"
    and sitex: "amp r2x i = 2 * (amp hx i + amp c i) - amp state_0x i"
    and acc: "amp racc i = route label bessel_m (amp r2x i) (amp state i)"
    if i: "i < sites H" for i
  proof -
    have a: "amp r2 i = recurrence_site H state_0 state_1 i"
      unfolding r2_def by (rule amp_overwrite [OF i s2])
    have ax: "amp r2x i = shadow_site H state_0x state_1 state_1x i"
      unfolding r2x_def by (rule amp_overwrite [OF i s2x])
    have b: "amp h i = apply_site H state_1 i"
      unfolding h_def by (rule amp_overwrite [OF i w])
    have bx: "amp hx i = apply_site H state_1x i"
      unfolding hx_def by (rule amp_overwrite [OF i w])
    have cc: "amp c i = commutator_site H state_1 i"
      unfolding c_def by (rule amp_overwrite [OF i w])
    show "amp r2 i = 2 * amp h i - amp state_0 i"
      by (simp only: a b recurrence_site_def)
    show "amp r2x i = 2 * (amp hx i + amp c i) - amp state_0x i"
      by (simp only: ax bx cc shadow_site_def)
    show "amp racc i = route label bessel_m (amp r2x i) (amp state i)"
      unfolding racc_def ax
      by (rule amp_overwrite [OF i st,
            where f = "\<lambda>i. route label bessel_m (shadow_site H state_0x state_1 state_1x i) (amp state i)"])
  qed
  show ?thesis
  proof (rule exI [of _ r2], rule exI [of _ r2x], rule exI [of _ racc], rule exI [of _ h],
      rule exI [of _ hx], rule exI [of _ c], intro conjI allI impI run app appx com bulk)
    fix i assume i: "i < sites H"
    note rc = route_channels [OF acc [OF i], unfolded Re_amp Im_amp]
    show "amp r2 i = 2 * amp h i - amp state_0 i"
      by (rule site [OF i])
    show "amp r2x i = 2 * (amp hx i + amp c i) - amp state_0x i"
      by (rule sitex [OF i])
    show "label = 1 \<Longrightarrow> amp racc i = amp state i + of_real bessel_m * amp r2x i"
      "label = 2 \<Longrightarrow> amp racc i = amp state i - of_real bessel_m * amp r2x i"
      "label = 3 \<Longrightarrow> amp racc i = amp state i + rot90 (of_real bessel_m * amp r2x i)"
      "label = 3 \<Longrightarrow> real_part racc ! i = real_part state ! i + bessel_m * imag_part r2x ! i"
      "label = 3 \<Longrightarrow> imag_part racc ! i = imag_part state ! i - bessel_m * real_part r2x ! i"
      "label = 4 \<Longrightarrow> amp racc i = amp state i - rot90 (of_real bessel_m * amp r2x i)"
      "label = 4 \<Longrightarrow> real_part racc ! i = real_part state ! i - bessel_m * imag_part r2x ! i"
      "label = 4 \<Longrightarrow> imag_part racc ! i = imag_part state ! i + bessel_m * real_part r2x ! i"
      using rc by simp_all
  qed
qed

theorem chebyshev_2x_step_witness:
  "hamiltonian_ok 2 1 chain2 \<and> xx_ok 1 chain2 \<and> energy_max chain2 \<noteq> 0 \<and>
   (1 :: int) \<in> {1, 2, 3, 4} \<and> vector_ok chain2 vec_a \<and>
   vector_ok chain2 vec_b \<and> vector_ok chain2 vec_0 \<and>
   (\<exists>new_2 new_2x new_state.
      Hamiltonian_chebyshev_2x 2 chain2 vec_a vec_b vec_b vec_a vec_0 vec_0 vec_a 3 1
        = Some (new_2, new_2x, new_state) \<and>
      amp new_2 0 = Complex (- 1) 7 \<and> amp new_2x 0 = Complex 3 (- 4) \<and>
      amp new_state 0 = Complex 10 (- 12))"
proof -
  have lab: "(1 :: int) \<in> {1, 2, 3, 4}" and e: "energy_max chain2 \<noteq> 0"
    by (simp_all add: chain2_def)
  from chebyshev_2x_step [OF chain2_ok chain2_xx_ok e lab chain2_vectors(1) chain2_vectors(2)
      chain2_vectors(2) chain2_vectors(1) chain2_vectors(3) chain2_vectors(3)
      chain2_vectors(1) chain2_vectors(3), of 3]
  obtain new_2 new_2x new_state applied applied_x commuted
    where run: "Hamiltonian_chebyshev_2x 2 chain2 vec_a vec_b vec_b vec_a vec_0 vec_0 vec_a 3 1
        = Some (new_2, new_2x, new_state)"
      and app: "Hamiltonian_apply 2 chain2 vec_b vec_0 = Some applied"
      and appx: "Hamiltonian_apply 2 chain2 vec_a vec_0 = Some applied_x"
      and com: "Hamiltonian_apply_commutator 2 chain2 vec_b vec_0 = Some commuted"
      and rec: "\<And>i. i < sites chain2 \<Longrightarrow> amp new_2 i = 2 * amp applied i - amp vec_a i"
      and recx: "\<And>i. i < sites chain2 \<Longrightarrow>
        amp new_2x i = 2 * (amp applied_x i + amp commuted i) - amp vec_b i"
      and acc: "\<And>i. i < sites chain2 \<Longrightarrow>
        amp new_state i = amp vec_a i + of_real 3 * amp new_2x i"
    by auto
  have a: "amp applied 0 = Complex 0 (7 / 2)"
    using apply_amp [OF chain2_ok chain2_vectors(2) chain2_vectors(3) app, of 0]
    by (simp add: chain2_sites chain2_apply_site)
  have ax: "amp applied_x 0 = Complex (3 / 2) (5 / 2)"
    using apply_amp [OF chain2_ok chain2_vectors(1) chain2_vectors(3) appx, of 0]
    by (simp add: chain2_sites chain2_apply_site)
  have c: "amp commuted 0 = Complex 0 (- 5)"
    using commutator_amp [OF chain2_ok chain2_xx_ok chain2_vectors(2) chain2_vectors(3) com, of 0]
    by (simp add: chain2_sites chain2_commutator_site)
  have n: "amp new_2 0 = Complex (- 1) 7"
    using rec [of 0] by (simp add: chain2_sites a chain2_amp_0 complex_eq_iff)
  have nx: "amp new_2x 0 = Complex 3 (- 4)"
    using recx [of 0] by (simp add: chain2_sites ax c chain2_amp_0 complex_eq_iff)
  have "amp new_state 0 = Complex 10 (- 12)"
    using acc [of 0] by (simp add: chain2_sites nx chain2_amp_0 complex_eq_iff)
  then show ?thesis
    using chain2_ok chain2_xx_ok e lab chain2_vectors run n nx by blast
qed

section \<open>Labels outside 1 to 4 (C10)\<close>

text \<open>
  Claim C10. For a label outside \<open>{1, 2, 3, 4}\<close> both \<open>Hamiltonian::chebyshev_2\<close> and
  \<open>Hamiltonian::chebyshev_2x\<close> still return and write the new recursion terms: at every
  site the new \<open>state_2\<close> is \<open>2 * apply(state_1) - state_0\<close> and, for the shadow step, the
  new \<open>state_2x\<close> is \<open>2 * (apply(state_1x) + apply_commutator(state_1)) - state_0x\<close>, and
  these are the very vectors the step returns for every valid label and every
  coefficient. The accumulator vector comes back unchanged in both channels: the switch
  has no default branch, so accumulation is skipped silently.
\<close>

theorem unrecognised_label_skips_accumulation:
  assumes ok: "hamiltonian_ok BLOCK_SIZE max_neighbor H"
    and lab: "label \<notin> {1, 2, 3, 4}"
    and s0: "vector_ok H state_0" and s1: "vector_ok H state_1" and s2: "vector_ok H state_2"
    and st: "vector_ok H state" and w: "vector_ok H output"
  shows "(\<exists>new_2 applied.
      Hamiltonian_chebyshev_2 BLOCK_SIZE H state_0 state_1 state_2 state bessel_m label
        = Some (new_2, state) \<and>
      Hamiltonian_apply BLOCK_SIZE H state_1 output = Some applied \<and>
      vector_ok H new_2 \<and>
      (\<forall>i<sites H. amp new_2 i = 2 * amp applied i - amp state_0 i) \<and>
      (\<forall>valid bessel. valid \<in> {1, 2, 3, 4} \<longrightarrow>
         (\<exists>routed.
            Hamiltonian_chebyshev_2 BLOCK_SIZE H state_0 state_1 state_2 state bessel valid
              = Some (new_2, routed)))) \<and>
    (xx_ok max_neighbor H \<and> vector_ok H state_0x \<and> vector_ok H state_1x \<and>
     vector_ok H state_2x \<longrightarrow>
     (\<exists>new_2 new_2x applied applied_x commuted.
        Hamiltonian_chebyshev_2x BLOCK_SIZE H state_0 state_0x state_1 state_1x state_2 state_2x
          state bessel_m label = Some (new_2, new_2x, state) \<and>
        Hamiltonian_apply BLOCK_SIZE H state_1 output = Some applied \<and>
        Hamiltonian_apply BLOCK_SIZE H state_1x output = Some applied_x \<and>
        Hamiltonian_apply_commutator BLOCK_SIZE H state_1 output = Some commuted \<and>
        vector_ok H new_2 \<and> vector_ok H new_2x \<and>
        (\<forall>i<sites H.
           amp new_2 i = 2 * amp applied i - amp state_0 i \<and>
           amp new_2x i = 2 * (amp applied_x i + amp commuted i) - amp state_0x i) \<and>
        (\<forall>valid bessel. valid \<in> {1, 2, 3, 4} \<longrightarrow>
           (\<exists>routed.
              Hamiltonian_chebyshev_2x BLOCK_SIZE H state_0 state_0x state_1 state_1x
                state_2 state_2x state bessel valid = Some (new_2, new_2x, routed)))))"
proof (intro conjI impI)
  define r2 where "r2 =
    \<lparr>real_part = overwrite (sites H) (\<lambda>i. Re (recurrence_site H state_0 state_1 i)) (real_part state_2),
     imag_part = overwrite (sites H) (\<lambda>i. Im (recurrence_site H state_0 state_1 i)) (imag_part state_2)\<rparr>"
  define h where "h =
    \<lparr>real_part = overwrite (sites H) (\<lambda>i. Re (apply_site H state_1 i)) (real_part output),
     imag_part = overwrite (sites H) (\<lambda>i. Im (apply_site H state_1 i)) (imag_part output)\<rparr>"
  have app: "Hamiltonian_apply BLOCK_SIZE H state_1 output = Some h"
    unfolding h_def by (rule apply_closed_form [OF ok s1 w])
  have okv: "vector_ok H r2"
    unfolding r2_def by (rule vector_ok_overwrite [OF s2])
  have site: "amp r2 i = 2 * amp h i - amp state_0 i" if i: "i < sites H" for i
  proof -
    have a: "amp r2 i = recurrence_site H state_0 state_1 i"
      unfolding r2_def by (rule amp_overwrite [OF i s2])
    have b: "amp h i = apply_site H state_1 i"
      unfolding h_def by (rule amp_overwrite [OF i w])
    show ?thesis
      by (simp only: a b recurrence_site_def)
  qed
  have run: "Hamiltonian_chebyshev_2 BLOCK_SIZE H state_0 state_1 state_2 state bessel_m label
      = Some (r2, state)"
    unfolding r2_def chebyshev_2_closed_form [OF ok s0 s1 s2 st] unrouted_vector [OF lab] ..
  have others: "\<exists>routed.
      Hamiltonian_chebyshev_2 BLOCK_SIZE H state_0 state_1 state_2 state bessel valid
        = Some (r2, routed)" for valid bessel
    unfolding r2_def chebyshev_2_closed_form [OF ok s0 s1 s2 st] by blast
  show "\<exists>new_2 applied.
      Hamiltonian_chebyshev_2 BLOCK_SIZE H state_0 state_1 state_2 state bessel_m label
        = Some (new_2, state) \<and>
      Hamiltonian_apply BLOCK_SIZE H state_1 output = Some applied \<and>
      vector_ok H new_2 \<and>
      (\<forall>i<sites H. amp new_2 i = 2 * amp applied i - amp state_0 i) \<and>
      (\<forall>valid bessel. valid \<in> {1, 2, 3, 4} \<longrightarrow>
         (\<exists>routed.
            Hamiltonian_chebyshev_2 BLOCK_SIZE H state_0 state_1 state_2 state bessel valid
              = Some (new_2, routed)))"
    by (rule exI [of _ r2], rule exI [of _ h], intro conjI allI impI run app okv site others)
next
  assume hyp: "xx_ok max_neighbor H \<and> vector_ok H state_0x \<and> vector_ok H state_1x \<and>
     vector_ok H state_2x"
  then have xs: "xx_ok max_neighbor H" and s0x: "vector_ok H state_0x"
    and s1x: "vector_ok H state_1x" and s2x: "vector_ok H state_2x"
    by simp_all
  define r2 where "r2 =
    \<lparr>real_part = overwrite (sites H) (\<lambda>i. Re (recurrence_site H state_0 state_1 i)) (real_part state_2),
     imag_part = overwrite (sites H) (\<lambda>i. Im (recurrence_site H state_0 state_1 i)) (imag_part state_2)\<rparr>"
  define r2x where "r2x =
    \<lparr>real_part = overwrite (sites H) (\<lambda>i. Re (shadow_site H state_0x state_1 state_1x i)) (real_part state_2x),
     imag_part = overwrite (sites H) (\<lambda>i. Im (shadow_site H state_0x state_1 state_1x i)) (imag_part state_2x)\<rparr>"
  define h where "h =
    \<lparr>real_part = overwrite (sites H) (\<lambda>i. Re (apply_site H state_1 i)) (real_part output),
     imag_part = overwrite (sites H) (\<lambda>i. Im (apply_site H state_1 i)) (imag_part output)\<rparr>"
  define hx where "hx =
    \<lparr>real_part = overwrite (sites H) (\<lambda>i. Re (apply_site H state_1x i)) (real_part output),
     imag_part = overwrite (sites H) (\<lambda>i. Im (apply_site H state_1x i)) (imag_part output)\<rparr>"
  define c where "c =
    \<lparr>real_part = overwrite (sites H) (\<lambda>i. Re (commutator_site H state_1 i)) (real_part output),
     imag_part = overwrite (sites H) (\<lambda>i. Im (commutator_site H state_1 i)) (imag_part output)\<rparr>"
  have app: "Hamiltonian_apply BLOCK_SIZE H state_1 output = Some h"
    unfolding h_def by (rule apply_closed_form [OF ok s1 w])
  have appx: "Hamiltonian_apply BLOCK_SIZE H state_1x output = Some hx"
    unfolding hx_def by (rule apply_closed_form [OF ok s1x w])
  have com: "Hamiltonian_apply_commutator BLOCK_SIZE H state_1 output = Some c"
    unfolding c_def by (rule commutator_closed_form [OF ok xs s1 w])
  have okv: "vector_ok H r2" "vector_ok H r2x"
    unfolding r2_def r2x_def
    by (rule vector_ok_overwrite [OF s2], rule vector_ok_overwrite [OF s2x])
  have site: "amp r2 i = 2 * amp h i - amp state_0 i"
    and sitex: "amp r2x i = 2 * (amp hx i + amp c i) - amp state_0x i"
    if i: "i < sites H" for i
  proof -
    have a: "amp r2 i = recurrence_site H state_0 state_1 i"
      unfolding r2_def by (rule amp_overwrite [OF i s2])
    have ax: "amp r2x i = shadow_site H state_0x state_1 state_1x i"
      unfolding r2x_def by (rule amp_overwrite [OF i s2x])
    have b: "amp h i = apply_site H state_1 i"
      unfolding h_def by (rule amp_overwrite [OF i w])
    have bx: "amp hx i = apply_site H state_1x i"
      unfolding hx_def by (rule amp_overwrite [OF i w])
    have cc: "amp c i = commutator_site H state_1 i"
      unfolding c_def by (rule amp_overwrite [OF i w])
    show "amp r2 i = 2 * amp h i - amp state_0 i"
      by (simp only: a b recurrence_site_def)
    show "amp r2x i = 2 * (amp hx i + amp c i) - amp state_0x i"
      by (simp only: ax bx cc shadow_site_def)
  qed
  have run: "Hamiltonian_chebyshev_2x BLOCK_SIZE H state_0 state_0x state_1 state_1x state_2 state_2x
      state bessel_m label = Some (r2, r2x, state)"
    unfolding r2_def r2x_def chebyshev_2x_closed_form [OF ok xs s0 s0x s1 s1x s2 s2x st]
      unrouted_vector [OF lab] ..
  have others: "\<exists>routed.
      Hamiltonian_chebyshev_2x BLOCK_SIZE H state_0 state_0x state_1 state_1x
        state_2 state_2x state bessel valid = Some (r2, r2x, routed)" for valid bessel
    unfolding r2_def r2x_def chebyshev_2x_closed_form [OF ok xs s0 s0x s1 s1x s2 s2x st]
    by blast
  show "\<exists>new_2 new_2x applied applied_x commuted.
        Hamiltonian_chebyshev_2x BLOCK_SIZE H state_0 state_0x state_1 state_1x state_2 state_2x
          state bessel_m label = Some (new_2, new_2x, state) \<and>
        Hamiltonian_apply BLOCK_SIZE H state_1 output = Some applied \<and>
        Hamiltonian_apply BLOCK_SIZE H state_1x output = Some applied_x \<and>
        Hamiltonian_apply_commutator BLOCK_SIZE H state_1 output = Some commuted \<and>
        vector_ok H new_2 \<and> vector_ok H new_2x \<and>
        (\<forall>i<sites H.
           amp new_2 i = 2 * amp applied i - amp state_0 i \<and>
           amp new_2x i = 2 * (amp applied_x i + amp commuted i) - amp state_0x i) \<and>
        (\<forall>valid bessel. valid \<in> {1, 2, 3, 4} \<longrightarrow>
           (\<exists>routed.
              Hamiltonian_chebyshev_2x BLOCK_SIZE H state_0 state_0x state_1 state_1x
                state_2 state_2x state bessel valid = Some (new_2, new_2x, routed)))"
    by (rule exI [of _ r2], rule exI [of _ r2x], rule exI [of _ h], rule exI [of _ hx],
        rule exI [of _ c], intro conjI allI impI run app appx com okv site sitex others)
qed

theorem unrecognised_label_skips_accumulation_witness:
  "hamiltonian_ok 2 1 chain2 \<and> (0 :: int) \<notin> {1, 2, 3, 4} \<and> xx_ok 1 chain2 \<and>
   vector_ok chain2 vec_a \<and> vector_ok chain2 vec_b \<and> vector_ok chain2 vec_0 \<and>
   (\<exists>new_2 routed.
      Hamiltonian_chebyshev_2 2 chain2 vec_a vec_b vec_0 vec_a 3 0 = Some (new_2, vec_a) \<and>
      amp new_2 0 = Complex (- 1) 7 \<and>
      Hamiltonian_chebyshev_2 2 chain2 vec_a vec_b vec_0 vec_a 3 3 = Some (new_2, routed)) \<and>
   (\<exists>new_2 new_2x routed.
      Hamiltonian_chebyshev_2x 2 chain2 vec_a vec_b vec_b vec_a vec_0 vec_0 vec_a 3 0
        = Some (new_2, new_2x, vec_a) \<and>
      amp new_2 0 = Complex (- 1) 7 \<and> amp new_2x 0 = Complex 3 (- 4) \<and>
      Hamiltonian_chebyshev_2x 2 chain2 vec_a vec_b vec_b vec_a vec_0 vec_0 vec_a 3 1
        = Some (new_2, new_2x, routed))"
proof -
  have lab: "(0 :: int) \<notin> {1, 2, 3, 4}"
    by simp
  note inst = unrecognised_label_skips_accumulation [OF chain2_ok lab chain2_vectors(1)
      chain2_vectors(2) chain2_vectors(3) chain2_vectors(1) chain2_vectors(3),
      where bessel_m = 3 and state_0x = vec_b and state_1x = vec_a and state_2x = vec_0]
  from inst [THEN conjunct1] obtain new_2 applied
    where run: "Hamiltonian_chebyshev_2 2 chain2 vec_a vec_b vec_0 vec_a 3 0 = Some (new_2, vec_a)"
      and app: "Hamiltonian_apply 2 chain2 vec_b vec_0 = Some applied"
      and rec: "\<forall>i<sites chain2. amp new_2 i = 2 * amp applied i - amp vec_a i"
      and oth: "\<forall>valid bessel. valid \<in> {1, 2, 3, 4} \<longrightarrow>
        (\<exists>routed. Hamiltonian_chebyshev_2 2 chain2 vec_a vec_b vec_0 vec_a bessel valid
          = Some (new_2, routed))"
    by - (elim exE conjE, rule that; assumption)
  have a: "amp applied 0 = Complex 0 (7 / 2)"
    using apply_amp [OF chain2_ok chain2_vectors(2) chain2_vectors(3) app, of 0]
    by (simp add: chain2_sites chain2_apply_site)
  have n: "amp new_2 0 = Complex (- 1) 7"
    using rec [rule_format, of 0] by (simp add: chain2_sites a chain2_amp_0 complex_eq_iff)
  have three: "(3 :: int) \<in> {1, 2, 3, 4}"
    by simp
  from oth [rule_format, of 3 3, OF three] obtain routed
    where r: "Hamiltonian_chebyshev_2 2 chain2 vec_a vec_b vec_0 vec_a 3 3 = Some (new_2, routed)"
    by (rule exE)
  have bulk: "\<exists>new_2 routed.
      Hamiltonian_chebyshev_2 2 chain2 vec_a vec_b vec_0 vec_a 3 0 = Some (new_2, vec_a) \<and>
      amp new_2 0 = Complex (- 1) 7 \<and>
      Hamiltonian_chebyshev_2 2 chain2 vec_a vec_b vec_0 vec_a 3 3 = Some (new_2, routed)"
    using run n r by blast
  have pre: "xx_ok 1 chain2 \<and> vector_ok chain2 vec_b \<and> vector_ok chain2 vec_a \<and>
      vector_ok chain2 vec_0"
    using chain2_xx_ok chain2_vectors by simp
  from mp [OF inst [THEN conjunct2] pre] obtain m_2 m_2x ap apx cm
    where runx: "Hamiltonian_chebyshev_2x 2 chain2 vec_a vec_b vec_b vec_a vec_0 vec_0 vec_a 3 0
        = Some (m_2, m_2x, vec_a)"
      and app': "Hamiltonian_apply 2 chain2 vec_b vec_0 = Some ap"
      and appx: "Hamiltonian_apply 2 chain2 vec_a vec_0 = Some apx"
      and com: "Hamiltonian_apply_commutator 2 chain2 vec_b vec_0 = Some cm"
      and recs: "\<forall>i<sites chain2.
        amp m_2 i = 2 * amp ap i - amp vec_a i \<and>
        amp m_2x i = 2 * (amp apx i + amp cm i) - amp vec_b i"
      and othx: "\<forall>valid bessel. valid \<in> {1, 2, 3, 4} \<longrightarrow>
        (\<exists>routed. Hamiltonian_chebyshev_2x 2 chain2 vec_a vec_b vec_b vec_a vec_0 vec_0 vec_a
          bessel valid = Some (m_2, m_2x, routed))"
    by - (elim exE conjE, rule that; assumption)
  have a': "amp ap 0 = Complex 0 (7 / 2)"
    using apply_amp [OF chain2_ok chain2_vectors(2) chain2_vectors(3) app', of 0]
    by (simp add: chain2_sites chain2_apply_site)
  have ax: "amp apx 0 = Complex (3 / 2) (5 / 2)"
    using apply_amp [OF chain2_ok chain2_vectors(1) chain2_vectors(3) appx, of 0]
    by (simp add: chain2_sites chain2_apply_site)
  have c: "amp cm 0 = Complex 0 (- 5)"
    using commutator_amp [OF chain2_ok chain2_xx_ok chain2_vectors(2) chain2_vectors(3) com, of 0]
    by (simp add: chain2_sites chain2_commutator_site)
  have n': "amp m_2 0 = Complex (- 1) 7"
    using recs [rule_format, of 0] by (simp add: chain2_sites a' chain2_amp_0 complex_eq_iff)
  have nx: "amp m_2x 0 = Complex 3 (- 4)"
    using recs [rule_format, of 0] by (simp add: chain2_sites ax c chain2_amp_0 complex_eq_iff)
  have one: "(1 :: int) \<in> {1, 2, 3, 4}"
    by simp
  from othx [rule_format, of 1 3, OF one] obtain routedx
    where rx: "Hamiltonian_chebyshev_2x 2 chain2 vec_a vec_b vec_b vec_a vec_0 vec_0 vec_a 3 1
        = Some (m_2, m_2x, routedx)"
    by (rule exE)
  have shadow: "\<exists>new_2 new_2x routed.
      Hamiltonian_chebyshev_2x 2 chain2 vec_a vec_b vec_b vec_a vec_0 vec_0 vec_a 3 0
        = Some (new_2, new_2x, vec_a) \<and>
      amp new_2 0 = Complex (- 1) 7 \<and> amp new_2x 0 = Complex 3 (- 4) \<and>
      Hamiltonian_chebyshev_2x 2 chain2 vec_a vec_b vec_b vec_a vec_0 vec_0 vec_a 3 1
        = Some (new_2, new_2x, routed)"
    using runx n' nx rx by blast
  show ?thesis
    by (intro conjI chain2_ok lab chain2_xx_ok chain2_vectors bulk shadow)
qed

section \<open>Hermiticity of the operator (C8)\<close>

lemma neighbor_in_range:
  assumes "hamiltonian_ok B mx H" "i < sites H" "k < degree H i"
  shows "neighbor H k i < sites H"
  using assms by (auto simp: hamiltonian_ok_def neighbor_def sites_def)

lemma hop_sum_matrix:
  assumes ok: "hamiltonian_ok B mx H" and i: "i < sites H"
  shows "(\<Sum>k<degree H i. hopping H k i * amp v (neighbor H k i))
       = (\<Sum>j<sites H. matrix_entry H i j * amp v j)"
proof -
  have "(\<Sum>j<sites H. matrix_entry H i j * amp v j)
      = (\<Sum>j<sites H. \<Sum>k<degree H i.
           if neighbor H k i = j then hopping H k i * amp v j else 0)"
    unfolding matrix_entry_def
    by (simp only: sum_distrib_right sum.inter_filter [OF finite_lessThan] if_distrib [of "\<lambda>z. z * _"]
        mult_zero_left)
  also have "\<dots> = (\<Sum>k<degree H i. \<Sum>j<sites H.
           if neighbor H k i = j then hopping H k i * amp v j else 0)"
    by (rule sum.swap)
  also have "\<dots> = (\<Sum>k<degree H i. hopping H k i * amp v (neighbor H k i))"
  proof (rule sum.cong [OF refl])
    fix k assume "k \<in> {..<degree H i}"
    then have "neighbor H k i \<in> {..<sites H}"
      using neighbor_in_range [OF ok i] by simp
    then show "(\<Sum>j<sites H. if neighbor H k i = j then hopping H k i * amp v j else 0)
        = hopping H k i * amp v (neighbor H k i)"
      by (simp add: sum.delta')
  qed
  finally show ?thesis ..
qed

lemma matrix_entry_single:
  assumes simple: "simple_edges H" and i: "i < sites H" and k: "k < degree H i"
  shows "matrix_entry H i (neighbor H k i) = hopping H k i"
proof -
  have "{k' \<in> {..<degree H i}. neighbor H k' i = neighbor H k i} = {k}"
    using simple i k by (auto simp: simple_edges_def)
  then show ?thesis
    unfolding matrix_entry_def by (simp only: sum.insert sum.empty finite.emptyI)
      simp
qed

lemma matrix_entry_none:
  assumes "\<not> (\<exists>k\<in>{..<degree H i}. neighbor H k i = j)"
  shows "matrix_entry H i j = 0"
proof -
  have "{k \<in> {..<degree H i}. neighbor H k i = j} = {}"
    using assms by auto
  then show ?thesis
    unfolding matrix_entry_def by (simp only: sum.empty)
qed

lemma matrix_hermitian:
  assumes herm: "hermitian_edges H" and simple: "simple_edges H"
    and i: "i < sites H" and j: "j < sites H"
  shows "matrix_entry H i j = cnj (matrix_entry H j i)"
proof (cases "\<exists>k\<in>{..<degree H i}. neighbor H k i = j")
  case True
  then obtain k where k: "k < degree H i" "neighbor H k i = j"
    by auto
  from True herm i j have "\<exists>k'\<in>{..<degree H j}. neighbor H k' j = i"
    unfolding hermitian_edges_def by blast
  then obtain k' where k': "k' < degree H j" "neighbor H k' j = i"
    by auto
  have "hopping H k i = cnj (hopping H k' (neighbor H k i))"
    using herm i k k' unfolding hermitian_edges_def by auto
  moreover have "matrix_entry H i j = hopping H k i"
    using matrix_entry_single [OF simple i k(1)] k(2) by simp
  moreover have "matrix_entry H j i = hopping H k' j"
    using matrix_entry_single [OF simple j k'(1)] k'(2) by simp
  ultimately show ?thesis
    using k(2) by simp
next
  case False
  moreover from False herm i j have "\<not> (\<exists>k'\<in>{..<degree H j}. neighbor H k' j = i)"
    unfolding hermitian_edges_def by blast
  ultimately show ?thesis
    by (simp add: matrix_entry_none)
qed

lemma apply_site_matrix:
  assumes ok: "hamiltonian_ok B mx H" and i: "i < sites H"
  shows "apply_site H v i =
    (of_real (potential H ! i) * amp v i + (\<Sum>j<sites H. matrix_entry H i j * amp v j))
      / of_real (energy_max H)"
  by (simp add: apply_site_def hop_sum_matrix [OF ok i])

lemma bilinear_hermitian:
  fixes A :: "nat \<Rightarrow> nat \<Rightarrow> complex" and p :: "nat \<Rightarrow> real"
  assumes herm: "\<And>i j. i < N \<Longrightarrow> j < N \<Longrightarrow> A i j = cnj (A j i)"
  shows "(\<Sum>i<N. cnj (x i) * ((of_real (p i) * y i + (\<Sum>j<N. A i j * y j)) / of_real e))
       = (\<Sum>i<N. cnj ((of_real (p i) * x i + (\<Sum>j<N. A i j * x j)) / of_real e) * y i)"
proof -
  have edges: "(\<Sum>i<N. \<Sum>j<N. cnj (x i) * (A i j * y j))
      = (\<Sum>i<N. \<Sum>j<N. cnj (A i j) * cnj (x j) * y i)"
  proof -
    have "(\<Sum>i<N. \<Sum>j<N. cnj (A i j) * cnj (x j) * y i)
        = (\<Sum>i<N. \<Sum>j<N. A j i * cnj (x j) * y i)"
      by (intro sum.cong refl) (simp add: herm [symmetric])
    also have "\<dots> = (\<Sum>j<N. \<Sum>i<N. A j i * cnj (x j) * y i)"
      by (rule sum.swap)
    also have "\<dots> = (\<Sum>i<N. \<Sum>j<N. cnj (x i) * (A i j * y j))"
      by (intro sum.cong refl) (simp add: mult_ac)
    finally show ?thesis ..
  qed
  have "(\<Sum>i<N. cnj (x i) * ((of_real (p i) * y i + (\<Sum>j<N. A i j * y j)) / of_real e))
      = ((\<Sum>i<N. of_real (p i) * cnj (x i) * y i)
         + (\<Sum>i<N. \<Sum>j<N. cnj (x i) * (A i j * y j))) / of_real e"
    by (simp add: sum_divide_distrib sum.distrib [symmetric] sum_distrib_left algebra_simps)
  also have "\<dots> = ((\<Sum>i<N. of_real (p i) * cnj (x i) * y i)
         + (\<Sum>i<N. \<Sum>j<N. cnj (A i j) * cnj (x j) * y i)) / of_real e"
    by (simp only: edges)
  also have "\<dots> = (\<Sum>i<N. cnj ((of_real (p i) * x i + (\<Sum>j<N. A i j * x j)) / of_real e) * y i)"
    by (simp add: sum_divide_distrib sum.distrib [symmetric] sum_distrib_right sum_distrib_left
        algebra_simps)
  finally show ?thesis .
qed

lemma chain2_hermitian: "hermitian_edges chain2" "simple_edges chain2"
  by code_simp+

lemma chain2_apply:
  "Hamiltonian_apply 2 chain2 vec_a vec_0 = Some \<lparr>real_part = [3 / 2, 11 / 2], imag_part = [5 / 2, 3 / 2]\<rparr>"
  "Hamiltonian_apply 2 chain2 vec_b vec_0 = Some \<lparr>real_part = [0, 9], imag_part = [7 / 2, 9 / 2]\<rparr>"
  by code_simp+

lemma chain2_inner_products:
  "inner_product (sites chain2) vec_a \<lparr>real_part = [0, 9], imag_part = [7 / 2, 9 / 2]\<rparr>
     = Complex (45 / 2) (7 / 2)"
  "inner_product (sites chain2) \<lparr>real_part = [3 / 2, 11 / 2], imag_part = [5 / 2, 3 / 2]\<rparr> vec_b
     = Complex (45 / 2) (7 / 2)"
  by (simp_all add: inner_product_def chain2_sites amp_def vec_a_def vec_b_def
      lessThan_Suc numeral_2_eq_2 complex_eq_iff)

text \<open>
  Claim C8 states that for a Hermitian edge table \<open>\<Sum>_i conj(x_i) * (apply(y))_i\<close> equals
  the complex conjugate of \<open>\<Sum>_i conj((apply(x))_i) * y_i\<close>. That fails on the two-site
  chain: both sums are \<open>45/2 + 7/2 i\<close>, which is not its own conjugate.
\<close>

theorem apply_hermitian_conjugate_counterexample:
  "hamiltonian_ok 2 1 chain2 \<and> hermitian_edges chain2 \<and> simple_edges chain2 \<and>
   energy_max chain2 \<noteq> 0 \<and> vector_ok chain2 vec_a \<and> vector_ok chain2 vec_b \<and>
   vector_ok chain2 vec_0 \<and>
   Hamiltonian_apply 2 chain2 vec_a vec_0
     = Some \<lparr>real_part = [3 / 2, 11 / 2], imag_part = [5 / 2, 3 / 2]\<rparr> \<and>
   Hamiltonian_apply 2 chain2 vec_b vec_0
     = Some \<lparr>real_part = [0, 9], imag_part = [7 / 2, 9 / 2]\<rparr> \<and>
   inner_product (sites chain2) vec_a \<lparr>real_part = [0, 9], imag_part = [7 / 2, 9 / 2]\<rparr>
     \<noteq> cnj (inner_product (sites chain2)
              \<lparr>real_part = [3 / 2, 11 / 2], imag_part = [5 / 2, 3 / 2]\<rparr> vec_b)"
proof -
  have e: "energy_max chain2 \<noteq> 0"
    by (simp add: chain2_def)
  have "inner_product (sites chain2) vec_a \<lparr>real_part = [0, 9], imag_part = [7 / 2, 9 / 2]\<rparr>
     \<noteq> cnj (inner_product (sites chain2)
              \<lparr>real_part = [3 / 2, 11 / 2], imag_part = [5 / 2, 3 / 2]\<rparr> vec_b)"
    by (simp add: chain2_inner_products complex_eq_iff)
  then show ?thesis
    using chain2_ok chain2_hermitian e chain2_vectors chain2_apply by blast
qed

text \<open>
  Claim C8 as amended. On a well-formed lattice with a Hermitian edge table in which no
  neighbour list names a site twice and with nonzero \<open>energy_max\<close>, for all vectors
  \<open>x\<close> and \<open>y\<close> of the lattice, \<open>\<Sum>_i conj(x_i) * (apply(y))_i\<close> equals
  \<open>\<Sum>_i conj((apply(x))_i) * y_i\<close>, without an outer conjugate, exactly over the reals.
\<close>

theorem apply_hermitian:
  assumes ok: "hamiltonian_ok BLOCK_SIZE max_neighbor H"
    and herm: "hermitian_edges H" and simple: "simple_edges H"
    and e: "energy_max H \<noteq> 0"
    and x: "vector_ok H x" and y: "vector_ok H y"
    and ox: "vector_ok H output_x" and oy: "vector_ok H output_y"
  shows "\<exists>applied_x applied_y.
    Hamiltonian_apply BLOCK_SIZE H x output_x = Some applied_x \<and>
    Hamiltonian_apply BLOCK_SIZE H y output_y = Some applied_y \<and>
    inner_product (sites H) x applied_y = inner_product (sites H) applied_x y"
proof -
  define hx where "hx =
    \<lparr>real_part = overwrite (sites H) (\<lambda>i. Re (apply_site H x i)) (real_part output_x),
     imag_part = overwrite (sites H) (\<lambda>i. Im (apply_site H x i)) (imag_part output_x)\<rparr>"
  define hy where "hy =
    \<lparr>real_part = overwrite (sites H) (\<lambda>i. Re (apply_site H y i)) (real_part output_y),
     imag_part = overwrite (sites H) (\<lambda>i. Im (apply_site H y i)) (imag_part output_y)\<rparr>"
  have runx: "Hamiltonian_apply BLOCK_SIZE H x output_x = Some hx"
    unfolding hx_def by (rule apply_closed_form [OF ok x ox])
  have runy: "Hamiltonian_apply BLOCK_SIZE H y output_y = Some hy"
    unfolding hy_def by (rule apply_closed_form [OF ok y oy])
  have ax: "amp hx i = apply_site H x i" and ay: "amp hy i = apply_site H y i"
    if "i < sites H" for i
    unfolding hx_def hy_def by (rule amp_overwrite [OF that ox], rule amp_overwrite [OF that oy])
  have "inner_product (sites H) x hy
      = (\<Sum>i<sites H. cnj (amp x i) *
          ((of_real (potential H ! i) * amp y i + (\<Sum>j<sites H. matrix_entry H i j * amp y j))
            / of_real (energy_max H)))"
    unfolding inner_product_def
    by (intro sum.cong refl) (simp add: ay apply_site_matrix [OF ok])
  also have "\<dots> = (\<Sum>i<sites H. cnj
          ((of_real (potential H ! i) * amp x i + (\<Sum>j<sites H. matrix_entry H i j * amp x j))
            / of_real (energy_max H)) * amp y i)"
    by (rule bilinear_hermitian) (rule matrix_hermitian [OF herm simple])
  also have "\<dots> = inner_product (sites H) hx y"
    unfolding inner_product_def
    by (intro sum.cong refl) (simp add: ax apply_site_matrix [OF ok])
  finally show ?thesis
    using runx runy by blast
qed

theorem apply_hermitian_witness:
  "hamiltonian_ok 2 1 chain2 \<and> hermitian_edges chain2 \<and> simple_edges chain2 \<and>
   energy_max chain2 \<noteq> 0 \<and> vector_ok chain2 vec_a \<and> vector_ok chain2 vec_b \<and>
   vector_ok chain2 vec_0 \<and>
   (\<exists>applied_x applied_y.
      Hamiltonian_apply 2 chain2 vec_a vec_0 = Some applied_x \<and>
      Hamiltonian_apply 2 chain2 vec_b vec_0 = Some applied_y \<and>
      inner_product (sites chain2) vec_a applied_y = Complex (45 / 2) (7 / 2) \<and>
      inner_product (sites chain2) applied_x vec_b = Complex (45 / 2) (7 / 2))"
proof -
  have e: "energy_max chain2 \<noteq> 0"
    by (simp add: chain2_def)
  from apply_hermitian [OF chain2_ok chain2_hermitian e chain2_vectors(1) chain2_vectors(2)
      chain2_vectors(3) chain2_vectors(3)]
  obtain applied_x applied_y
    where run: "Hamiltonian_apply 2 chain2 vec_a vec_0 = Some applied_x"
      "Hamiltonian_apply 2 chain2 vec_b vec_0 = Some applied_y"
      and eq: "inner_product (sites chain2) vec_a applied_y
        = inner_product (sites chain2) applied_x vec_b"
    by blast
  have "applied_y = \<lparr>real_part = [0, 9], imag_part = [7 / 2, 9 / 2]\<rparr>"
    using run(2) by (simp add: chain2_apply)
  then have "inner_product (sites chain2) vec_a applied_y = Complex (45 / 2) (7 / 2)"
    by (simp only: chain2_inner_products)
  then show ?thesis
    using chain2_ok chain2_hermitian e chain2_vectors run eq by auto
qed

text \<open>
  The condition on repeated neighbours is needed: the lattice \<open>fork2\<close> meets both clauses
  of \<open>hermitian_edges\<close>, and the two inner products differ on it.
\<close>

lemma fork2_ok: "hamiltonian_ok 2 2 fork2" "hermitian_edges fork2" "\<not> simple_edges fork2"
  "vector_ok fork2 unit_0" "vector_ok fork2 unit_1"
  by code_simp+

lemma fork2_apply:
  "Hamiltonian_apply 2 fork2 unit_0 vec_0 = Some \<lparr>real_part = [0, 1], imag_part = [0, 0]\<rparr>"
  "Hamiltonian_apply 2 fork2 unit_1 vec_0 = Some \<lparr>real_part = [2, 0], imag_part = [0, 0]\<rparr>"
  by code_simp+

lemma fork2_inner_products:
  "inner_product (sites fork2) unit_0 \<lparr>real_part = [2, 0], imag_part = [0, 0]\<rparr>
     \<noteq> inner_product (sites fork2) \<lparr>real_part = [0, 1], imag_part = [0, 0]\<rparr> unit_1"
  by (simp add: inner_product_def sites_def fork2_def amp_def unit_0_def unit_1_def
      lessThan_Suc numeral_2_eq_2 complex_eq_iff)

lemma repeated_neighbour_not_hermitian:
  "hamiltonian_ok 2 2 fork2 \<and> hermitian_edges fork2 \<and> \<not> simple_edges fork2 \<and>
   Hamiltonian_apply 2 fork2 unit_0 vec_0 = Some \<lparr>real_part = [0, 1], imag_part = [0, 0]\<rparr> \<and>
   Hamiltonian_apply 2 fork2 unit_1 vec_0 = Some \<lparr>real_part = [2, 0], imag_part = [0, 0]\<rparr> \<and>
   inner_product (sites fork2) unit_0 \<lparr>real_part = [2, 0], imag_part = [0, 0]\<rparr>
     \<noteq> inner_product (sites fork2) \<lparr>real_part = [0, 1], imag_part = [0, 0]\<rparr> unit_1"
  using fork2_ok(1-3) fork2_apply fork2_inner_products by blast

end
